theory Spec2Isabelle
  imports Main
begin

section \<open>JavaScript values\<close>

text \<open>
  The values \<^verbatim>\<open>lib/appenders/clustered.js\<close> handles. Numbers are integers (the model has
  no fractions, NaN or infinities); a missing numeric result (NaN) is \<open>None\<close> where it
  arises. An object is \<open>JObj props hidden\<close>: \<open>props\<close> are its own enumerable properties
  in the order JavaScript enumerates them, \<open>hidden\<close> its own non-enumerable properties,
  which a read sees but \<^verbatim>\<open>JSON.stringify\<close> does not (such as \<^verbatim>\<open>stack\<close> and
  \<^verbatim>\<open>message\<close> of an \<^verbatim>\<open>Error\<close>). No value is a function, so no object has a method of
  its own. A \<^verbatim>\<open>Date\<close> is its time value in milliseconds, \<open>None\<close> for an
  invalid date. Arrays and dates carry no named properties of their own.
\<close>

datatype jsval =
    JUndefined
  | JNull
  | JBool bool
  | JNum int
  | JBigInt int
  | JStr string
  | JDate "int option"
  | JArr "jsval list"
  | JObj "(string \<times> jsval) list" "(string \<times> jsval) list"

text \<open>What \<^verbatim>\<open>JSON.parse\<close> can return.\<close>

datatype json =
    Null
  | Bool bool
  | Num int
  | Str string
  | Arr "json list"
  | Obj "(string \<times> json) list"

datatype exn = TypeError | SyntaxError | Thrown string

primrec of_json :: "json \<Rightarrow> jsval" where
  "of_json Null = JNull"
| "of_json (Bool b) = JBool b"
| "of_json (Num n) = JNum n"
| "of_json (Str s) = JStr s"
| "of_json (Arr xs) = JArr (map of_json xs)"
| "of_json (Obj ps) = JObj (map (map_prod id of_json) ps) []"

text \<open>
  Decimal digits of an integer, as \<^verbatim>\<open>String(n)\<close> and \<^verbatim>\<open>JSON.stringify(n)\<close> print one
  (JavaScript does so for an integer below 10^21).
\<close>

fun digits :: "nat \<Rightarrow> string" where
  "digits n =
     (if n < 10 then [''0123456789'' ! n] else digits (n div 10) @ [''0123456789'' ! (n mod 10)])"

declare digits.simps [simp del]

lemma digits_small: "n < 10 \<Longrightarrow> digits n = [''0123456789'' ! n]"
  by (subst digits.simps) simp

lemma digits_large: "\<not> n < 10 \<Longrightarrow> digits n = digits (n div 10) @ [''0123456789'' ! (n mod 10)]"
  by (subst digits.simps) simp

definition show_int :: "int \<Rightarrow> string" where
  "show_int n = (if n < 0 then CHR ''-'' # digits (nat (- n)) else digits (nat n))"

text \<open>\<^verbatim>\<open>ToBoolean\<close>: the falsy values are undefined, null, false, 0, 0n and the empty string.\<close>

fun truthy :: "jsval \<Rightarrow> bool" where
  "truthy JUndefined = False"
| "truthy JNull = False"
| "truthy (JBool b) = b"
| "truthy (JNum n) = (n \<noteq> 0)"
| "truthy (JBigInt n) = (n \<noteq> 0)"
| "truthy (JStr s) = (s \<noteq> [])"
| "truthy (JDate t) = True"
| "truthy (JArr xs) = True"
| "truthy (JObj ps hs) = True"

text \<open>
  Reading a named property \<^verbatim>\<open>v.k\<close> (the names the source reads are never array
  indices). Reading from undefined or null throws a TypeError; a primitive has no named
  property but a string's \<^verbatim>\<open>length\<close>; an array has \<^verbatim>\<open>length\<close>; an object is looked
  up among its own enumerable properties first.
\<close>

fun get_prop :: "jsval \<Rightarrow> string \<Rightarrow> exn + jsval" where
  "get_prop JUndefined k = Inl TypeError"
| "get_prop JNull k = Inl TypeError"
| "get_prop (JStr s) k = Inr (if k = ''length'' then JNum (int (length s)) else JUndefined)"
| "get_prop (JArr xs) k = Inr (if k = ''length'' then JNum (int (length xs)) else JUndefined)"
| "get_prop (JObj ps hs) k =
     (case map_of ps k of
        Some v \<Rightarrow> Inr v
      | None \<Rightarrow> (case map_of hs k of Some v \<Rightarrow> Inr v | None \<Rightarrow> Inr JUndefined))"
| "get_prop v k = Inr JUndefined"

text \<open>
  Reading an element \<^verbatim>\<open>v[i]\<close> for a loop counter \<open>i\<close>: an array element or a string's
  character when in range, the property named by the decimal digits of \<open>i\<close> on an object,
  undefined otherwise.
\<close>

fun get_index :: "jsval \<Rightarrow> nat \<Rightarrow> exn + jsval" where
  "get_index JUndefined i = Inl TypeError"
| "get_index JNull i = Inl TypeError"
| "get_index (JStr s) i = Inr (if i < length s then JStr [s ! i] else JUndefined)"
| "get_index (JArr xs) i = Inr (if i < length xs then xs ! i else JUndefined)"
| "get_index (JObj ps hs) i = get_prop (JObj ps hs) (digits i)"
| "get_index v i = Inr JUndefined"

text \<open>
  Writing a property in strict mode (the file starts with \<^verbatim>\<open>'use strict'\<close>): on
  undefined, null or any primitive it throws a TypeError. On an object an existing
  property is overwritten in place and a new one is appended to the enumerable ones.
  Arrays and dates accept the write, but the model keeps no named properties for them:
  the source writes \<^verbatim>\<open>startTime\<close> on what \<^verbatim>\<open>JSON.parse\<close> returned and, when that is an
  array, throws at the next line, where \<^verbatim>\<open>level\<close> is undefined.
\<close>

fun upd :: "string \<Rightarrow> 'a \<Rightarrow> (string \<times> 'a) list \<Rightarrow> (string \<times> 'a) list" where
  "upd k v [] = [(k, v)]"
| "upd k v ((k', v') # ps) = (if k = k' then (k, v) # ps else (k', v') # upd k v ps)"

fun set_prop :: "jsval \<Rightarrow> string \<Rightarrow> jsval \<Rightarrow> exn + jsval" where
  "set_prop (JObj ps hs) k v =
     (if map_of ps k = None \<and> map_of hs k \<noteq> None then Inr (JObj ps (upd k v hs))
      else Inr (JObj (upd k v ps) hs))"
| "set_prop (JArr xs) k v = Inr (JArr xs)"
| "set_prop (JDate t) k v = Inr (JDate t)"
| "set_prop w k v = Inl TypeError"

text \<open>
  Writing an element \<^verbatim>\<open>v[i] = x\<close> for a loop counter \<open>i\<close>. The source only writes at
  an index it has just read a truthy element from, so on an array the index is in range.
\<close>

fun set_index :: "jsval \<Rightarrow> nat \<Rightarrow> jsval \<Rightarrow> exn + jsval" where
  "set_index (JObj ps hs) i v = set_prop (JObj ps hs) (digits i) v"
| "set_index (JArr xs) i v =
     Inr (JArr (if i < length xs then xs[i := v] else xs @ replicate (i - length xs) JUndefined @ [v]))"
| "set_index (JDate t) i v = Inr (JDate t)"
| "set_index w i v = Inl TypeError"

section \<open>The runtime and the modules the file requires\<close>

text \<open>
  What the file takes from outside itself. The text-dependent parts of the runtime are
  parameters: \<^verbatim>\<open>JSON.parse\<close> (\<open>None\<close> when it throws a SyntaxError), the one-argument
  \<^verbatim>\<open>Date\<close> constructor (its time value, \<open>None\<close> for an invalid date),
  \<^verbatim>\<open>Date.prototype.toISOString\<close>, the conversions \<^verbatim>\<open>ToNumber\<close> of a value that is not
  a number and \<^verbatim>\<open>ToString\<close> of a value that is not a string, and the clock read by
  \<^verbatim>\<open>new Date()\<close>. Of \<^verbatim>\<open>require('../log4js')\<close> the file
  uses \<^verbatim>\<open>levels.toLevel\<close> and \<^verbatim>\<open>levels.ERROR\<close>; of \<^verbatim>\<open>require('cluster')\<close> the flags
  \<^verbatim>\<open>isMaster\<close> and \<^verbatim>\<open>isWorker\<close>; of \<^verbatim>\<open>process\<close> its \<^verbatim>\<open>pid\<close>.
\<close>

record env =
  JSON_parse :: "string \<Rightarrow> json option"
  newDate :: "jsval \<Rightarrow> exn + int option"
  toISOString :: "int \<Rightarrow> string"
  ToNumber :: "jsval \<Rightarrow> exn + int option"
  ToString :: "jsval \<Rightarrow> exn + string"
  now :: int
  toLevel :: "jsval \<Rightarrow> exn + jsval"
  ERROR :: jsval
  isMaster :: bool
  isWorker :: bool
  pid :: int

section \<open>\<^verbatim>\<open>JSON.stringify\<close>\<close>

text \<open>
  \<^verbatim>\<open>JSON.stringify\<close> first turns a value into a JSON value: undefined has none (it is
  left out of an object and becomes null in an array), a \<^verbatim>\<open>Date\<close> becomes what its
  \<^verbatim>\<open>toJSON\<close> returns (the ISO string, null for an invalid date), an object keeps its
  enumerable properties only, and a BigInt throws a TypeError.
\<close>

fun to_json :: "env \<Rightarrow> jsval \<Rightarrow> exn + json option"
  and to_json_elems :: "env \<Rightarrow> jsval list \<Rightarrow> exn + json list"
  and to_json_props :: "env \<Rightarrow> (string \<times> jsval) list \<Rightarrow> exn + (string \<times> json) list" where
  "to_json E JUndefined = Inr None"
| "to_json E JNull = Inr (Some Null)"
| "to_json E (JBool b) = Inr (Some (Bool b))"
| "to_json E (JNum n) = Inr (Some (Num n))"
| "to_json E (JBigInt n) = Inl TypeError"
| "to_json E (JStr s) = Inr (Some (Str s))"
| "to_json E (JDate None) = Inr (Some Null)"
| "to_json E (JDate (Some t)) = Inr (Some (Str (toISOString E t)))"
| "to_json E (JArr xs) =
     (case to_json_elems E xs of Inl e \<Rightarrow> Inl e | Inr js \<Rightarrow> Inr (Some (Arr js)))"
| "to_json E (JObj ps hs) =
     (case to_json_props E ps of Inl e \<Rightarrow> Inl e | Inr js \<Rightarrow> Inr (Some (Obj js)))"
| "to_json_elems E [] = Inr []"
| "to_json_elems E (x # xs) =
     (case to_json E x of
        Inl e \<Rightarrow> Inl e
      | Inr j \<Rightarrow> (case to_json_elems E xs of
                   Inl e \<Rightarrow> Inl e
                 | Inr js \<Rightarrow> Inr ((case j of None \<Rightarrow> Null | Some j' \<Rightarrow> j') # js)))"
| "to_json_props E [] = Inr []"
| "to_json_props E ((k, x) # ps) =
     (case to_json E x of
        Inl e \<Rightarrow> Inl e
      | Inr j \<Rightarrow> (case to_json_props E ps of
                   Inl e \<Rightarrow> Inl e
                 | Inr js \<Rightarrow> Inr ((case j of None \<Rightarrow> [] | Some j' \<Rightarrow> [(k, j')]) @ js)))"

text \<open>Then it prints the JSON value, compactly.\<close>

definition hex_digit :: "nat \<Rightarrow> char" where
  "hex_digit n = ''0123456789abcdef'' ! n"

definition quote_char :: "char \<Rightarrow> string" where
  "quote_char c =
     (if c = CHR ''\"'' then [CHR 0x5C, CHR ''\"'']
      else if c = CHR 0x5C then [CHR 0x5C, CHR 0x5C]
      else if c = CHR 0x08 then [CHR 0x5C, CHR ''b'']
      else if c = CHR 0x09 then [CHR 0x5C, CHR ''t'']
      else if c = CHR 0x0A then [CHR 0x5C, CHR ''n'']
      else if c = CHR 0x0C then [CHR 0x5C, CHR ''f'']
      else if c = CHR 0x0D then [CHR 0x5C, CHR ''r'']
      else if (of_char c :: nat) < 32
        then [CHR 0x5C, CHR ''u'', CHR ''0'', CHR ''0'',
              hex_digit (of_char c div 16), hex_digit (of_char c mod 16)]
      else [c])"

definition quote :: "string \<Rightarrow> string" where
  "quote s = CHR ''\"'' # concat (map quote_char s) @ [CHR ''\"'']"

fun commas :: "string list \<Rightarrow> string" where
  "commas [] = []"
| "commas [x] = x"
| "commas (x # y # ys) = x @ CHR '','' # commas (y # ys)"

fun render :: "json \<Rightarrow> string"
  and render_elems :: "json list \<Rightarrow> string list"
  and render_props :: "(string \<times> json) list \<Rightarrow> string list" where
  "render Null = ''null''"
| "render (Bool b) = (if b then ''true'' else ''false'')"
| "render (Num n) = show_int n"
| "render (Str s) = quote s"
| "render (Arr xs) = CHR ''['' # commas (render_elems xs) @ '']''"
| "render (Obj ps) = CHR ''{'' # commas (render_props ps) @ ''}''"
| "render_elems [] = []"
| "render_elems (x # xs) = render x # render_elems xs"
| "render_props [] = []"
| "render_props ((k, x) # ps) = (quote k @ CHR '':'' # render x) # render_props ps"

text \<open>\<^verbatim>\<open>JSON.stringify(v)\<close>: a string, undefined (\<open>None\<close>), or a throw.\<close>

definition JSON_stringify :: "env \<Rightarrow> jsval \<Rightarrow> exn + string option" where
  "JSON_stringify E v = (case to_json E v of Inl e \<Rightarrow> Inl e | Inr j \<Rightarrow> Inr (map_option render j))"

section \<open>The event codec\<close>

text \<open>
  The loop test \<^verbatim>\<open>i < v\<close> for a counter \<open>i\<close>: a number is compared as it is, any
  other value is first converted by the runtime, and NaN compares false.
\<close>

definition less_than :: "env \<Rightarrow> nat \<Rightarrow> jsval \<Rightarrow> exn + bool" where
  "less_than E i v =
     (case v of
        JNum n \<Rightarrow> Inr (int i < n)
      | _ \<Rightarrow> (case ToNumber E v of
                Inl e \<Rightarrow> Inl e
              | Inr None \<Rightarrow> Inr False
              | Inr (Some n) \<Rightarrow> Inr (int i < n)))"

text \<open>
  The body of the loop of \<^verbatim>\<open>serializeLoggingEvent\<close> on one element: the replacement
  \<^verbatim>\<open>{ stack: item.stack }\<close> when
  \<^verbatim>\<open>item && item.stack && JSON.stringify(item) === '{}'\<close>, \<open>None\<close> when the test fails.
\<close>

definition serialize_item :: "env \<Rightarrow> jsval \<Rightarrow> exn + jsval option" where
  "serialize_item E item =
     (if \<not> truthy item then Inr None
      else case get_prop item ''stack'' of
        Inl e \<Rightarrow> Inl e
      | Inr st \<Rightarrow>
          if \<not> truthy st then Inr None
          else case JSON_stringify E item of
            Inl e \<Rightarrow> Inl e
          | Inr txt \<Rightarrow> if txt = Some ''{}'' then Inr (Some (JObj [(''stack'', st)] [])) else Inr None)"

text \<open>
  The step \<^verbatim>\<open>i++\<close> of a loop counter. The counter is a double: it counts exactly up to
  2^53 = 9007199254740992 and stays there, since 2^53 + 1 is no double and rounds back to
  2^53.
\<close>

definition increment :: "nat \<Rightarrow> nat" where
  "increment i = (if i < 2 ^ 53 then Suc i else i)"

text \<open>
  The loop of \<^verbatim>\<open>serializeLoggingEvent\<close> from counter \<open>i\<close>; \<^verbatim>\<open>loggingEvent.data.length\<close>
  is read again at every test. The event is a tree here, so the write to
  \<^verbatim>\<open>loggingEvent.data[i]\<close> puts the updated \<^verbatim>\<open>data\<close> back into the event. The loop
  need not end (a \<^verbatim>\<open>length\<close> above 2^53 is never reached by the counter): \<open>None\<close> is
  the loop that never returns, \<open>Some (Inl e)\<close> a throw, \<open>Some (Inr ev)\<close> the event it leaves.
\<close>

partial_function (option) serialize_loop :: "env \<Rightarrow> jsval \<Rightarrow> nat \<Rightarrow> (exn + jsval) option" where
  "serialize_loop E ev i =
     (case get_prop ev ''data'' of
        Inl e \<Rightarrow> Some (Inl e)
      | Inr d \<Rightarrow>
     (case get_prop d ''length'' of
        Inl e \<Rightarrow> Some (Inl e)
      | Inr l \<Rightarrow>
     (case less_than E i l of
        Inl e \<Rightarrow> Some (Inl e)
      | Inr b \<Rightarrow>
          if \<not> b then Some (Inr ev) else
     (case get_index d i of
        Inl e \<Rightarrow> Some (Inl e)
      | Inr item \<Rightarrow>
     (case serialize_item E item of
        Inl e \<Rightarrow> Some (Inl e)
      | Inr None \<Rightarrow> serialize_loop E ev (increment i)
      | Inr (Some item') \<Rightarrow>
     (case set_index d i item' of
        Inl e \<Rightarrow> Some (Inl e)
      | Inr d' \<Rightarrow>
     (case set_prop ev ''data'' d' of
        Inl e \<Rightarrow> Some (Inl e)
      | Inr ev' \<Rightarrow> serialize_loop E ev' (increment i))))))))"

text \<open>
  \<^verbatim>\<open>serializeLoggingEvent(loggingEvent)\<close>: the returned text (no text were
  \<^verbatim>\<open>JSON.stringify\<close> to return undefined) and the event as the loop has left it, since
  the caller's event is changed in place; a throw; or \<open>None\<close> when the loop never ends.
\<close>

definition serializeLoggingEvent :: "env \<Rightarrow> jsval \<Rightarrow> (exn + (string option \<times> jsval)) option" where
  "serializeLoggingEvent E loggingEvent =
     (case serialize_loop E loggingEvent 0 of
        None \<Rightarrow> None
      | Some (Inl e) \<Rightarrow> Some (Inl e)
      | Some (Inr ev) \<Rightarrow>
          (case JSON_stringify E ev of Inl e \<Rightarrow> Some (Inl e) | Inr txt \<Rightarrow> Some (Inr (txt, ev))))"

text \<open>
  The body of the loop of \<^verbatim>\<open>deserializeLoggingEvent\<close> on one element: \<^verbatim>\<open>item.stack\<close>
  when \<^verbatim>\<open>item && item.stack\<close>, \<open>None\<close> when the test fails.
\<close>

definition deserialize_item :: "jsval \<Rightarrow> exn + jsval option" where
  "deserialize_item item =
     (if \<not> truthy item then Inr None
      else case get_prop item ''stack'' of
        Inl e \<Rightarrow> Inl e
      | Inr st \<Rightarrow> if truthy st then Inr (Some st) else Inr None)"

text \<open>The loop of \<^verbatim>\<open>deserializeLoggingEvent\<close> from counter \<open>i\<close>, with the same header.\<close>

partial_function (option) deserialize_loop :: "env \<Rightarrow> jsval \<Rightarrow> nat \<Rightarrow> (exn + jsval) option" where
  "deserialize_loop E ev i =
     (case get_prop ev ''data'' of
        Inl e \<Rightarrow> Some (Inl e)
      | Inr d \<Rightarrow>
     (case get_prop d ''length'' of
        Inl e \<Rightarrow> Some (Inl e)
      | Inr l \<Rightarrow>
     (case less_than E i l of
        Inl e \<Rightarrow> Some (Inl e)
      | Inr b \<Rightarrow>
          if \<not> b then Some (Inr ev) else
     (case get_index d i of
        Inl e \<Rightarrow> Some (Inl e)
      | Inr item \<Rightarrow>
     (case deserialize_item item of
        Inl e \<Rightarrow> Some (Inl e)
      | Inr None \<Rightarrow> deserialize_loop E ev (increment i)
      | Inr (Some st) \<Rightarrow>
     (case set_index d i st of
        Inl e \<Rightarrow> Some (Inl e)
      | Inr d' \<Rightarrow>
     (case set_prop ev ''data'' d' of
        Inl e \<Rightarrow> Some (Inl e)
      | Inr ev' \<Rightarrow> deserialize_loop E ev' (increment i))))))))"

text \<open>
  \<^verbatim>\<open>JSON.parse(x)\<close> parses the text of its argument: the argument itself when it is a
  string, as it is for every message the forwarder sends.
\<close>

definition JSON_parse_value :: "env \<Rightarrow> jsval \<Rightarrow> exn + json" where
  "JSON_parse_value E x =
     (case (case x of JStr s \<Rightarrow> Inr s | _ \<Rightarrow> ToString E x) of
        Inl e \<Rightarrow> Inl e
      | Inr s \<Rightarrow> (case JSON_parse E s of None \<Rightarrow> Inl SyntaxError | Some j \<Rightarrow> Inr j))"

text \<open>
  The \<^verbatim>\<open>try\<close> block of \<^verbatim>\<open>deserializeLoggingEvent\<close>: \<open>Some (Inl e)\<close> is a throw inside
  it, \<open>None\<close> a loop that never ends.
\<close>

definition deserialize_try :: "env \<Rightarrow> jsval \<Rightarrow> (exn + jsval) option" where
  "deserialize_try E loggingEventString =
     (case JSON_parse_value E loggingEventString of
        Inl e \<Rightarrow> Some (Inl e)
      | Inr j \<Rightarrow>
     (case get_prop (of_json j) ''startTime'' of
        Inl e \<Rightarrow> Some (Inl e)
      | Inr t \<Rightarrow>
     (case newDate E t of
        Inl e \<Rightarrow> Some (Inl e)
      | Inr t' \<Rightarrow>
     (case set_prop (of_json j) ''startTime'' (JDate t') of
        Inl e \<Rightarrow> Some (Inl e)
      | Inr ev1 \<Rightarrow>
     (case get_prop ev1 ''level'' of
        Inl e \<Rightarrow> Some (Inl e)
      | Inr lv \<Rightarrow>
     (case get_prop lv ''levelStr'' of
        Inl e \<Rightarrow> Some (Inl e)
      | Inr ls \<Rightarrow>
     (case toLevel E ls of
        Inl e \<Rightarrow> Some (Inl e)
      | Inr lv' \<Rightarrow>
     (case set_prop ev1 ''level'' lv' of
        Inl e \<Rightarrow> Some (Inl e)
      | Inr ev2 \<Rightarrow> deserialize_loop E ev2 0))))))))"

text \<open>The event built in the \<^verbatim>\<open>catch\<close> block.\<close>

definition fallback :: "env \<Rightarrow> jsval \<Rightarrow> jsval" where
  "fallback E loggingEventString =
     JObj [(''startTime'', JDate (Some (now E))),
           (''categoryName'', JStr ''log4js''),
           (''level'', ERROR E),
           (''data'', JArr [JStr ''Unable to parse log:'', loggingEventString])] []"

text \<open>
  \<^verbatim>\<open>deserializeLoggingEvent(loggingEventString)\<close>: the event it returns, or \<open>None\<close> when
  it never returns. Every throw of the \<^verbatim>\<open>try\<close> block is caught, so it has no throwing
  outcome.
\<close>

definition deserializeLoggingEvent :: "env \<Rightarrow> jsval \<Rightarrow> jsval option" where
  "deserializeLoggingEvent E loggingEventString =
     (case deserialize_try E loggingEventString of
        None \<Rightarrow> None
      | Some (Inl e) \<Rightarrow> Some (fallback E loggingEventString)
      | Some (Inr loggingEvent) \<Rightarrow> Some loggingEvent)"

section \<open>The appenders\<close>

text \<open>
  \<^verbatim>\<open>a === b\<close>. Two objects are equal only when they are one object; the operands the
  source compares (a configured category or a message type against an event's category
  or a string literal) are never one object, so objects compare unequal here.
\<close>

fun strict_eq :: "jsval \<Rightarrow> jsval \<Rightarrow> bool" where
  "strict_eq JUndefined JUndefined = True"
| "strict_eq JNull JNull = True"
| "strict_eq (JBool a) (JBool b) = (a = b)"
| "strict_eq (JNum a) (JNum b) = (a = b)"
| "strict_eq (JBigInt a) (JBigInt b) = (a = b)"
| "strict_eq (JStr a) (JStr b) = (a = b)"
| "strict_eq a b = False"

text \<open>
  A destination is a callable of the host: it takes the event and acts on the world
  outside (\<open>'w\<close>), or throws. The configuration holds the descriptors
  \<^verbatim>\<open>config.appenders\<close> and the callables \<^verbatim>\<open>config.actualAppenders\<close>, each an array or
  absent (\<open>None\<close>).
\<close>

type_synonym 'w appender = "jsval \<Rightarrow> 'w \<Rightarrow> exn + 'w"

record 'w config =
  appenders :: "jsval list option"
  actualAppenders :: "'w appender list option"

text \<open>
  The call \<^verbatim>\<open>config.actualAppenders[i](loggingEvent)\<close>; past the end of the array the
  element is undefined, and calling it throws a TypeError.
\<close>

definition invoke :: "'w appender list \<Rightarrow> nat \<Rightarrow> jsval \<Rightarrow> 'w \<Rightarrow> exn + 'w" where
  "invoke fs i loggingEvent w = (if i < length fs then (fs ! i) loggingEvent w else Inl TypeError)"

text \<open>
  The loop of \<^verbatim>\<open>masterAppender\<close> over the counters \<open>is\<close> still to come;
  \<^verbatim>\<open>config.actualAppenders.length\<close> is read once, before the loop.
\<close>

fun master_loop :: "'w config \<Rightarrow> 'w appender list \<Rightarrow> jsval \<Rightarrow> nat list \<Rightarrow> 'w \<Rightarrow> exn + 'w" where
  "master_loop config fs loggingEvent [] w = Inr w"
| "master_loop config fs loggingEvent (i # is) w =
     (case appenders config of
        None \<Rightarrow> Inl TypeError
      | Some ds \<Rightarrow>
     (case get_prop (if i < length ds then ds ! i else JUndefined) ''category'' of
        Inl e \<Rightarrow> Inl e
      | Inr category \<Rightarrow>
          if \<not> truthy category then
            (case invoke fs i loggingEvent w of
               Inl e \<Rightarrow> Inl e
             | Inr w' \<Rightarrow> master_loop config fs loggingEvent is w')
          else
            (case get_prop loggingEvent ''categoryName'' of
               Inl e \<Rightarrow> Inl e
             | Inr categoryName \<Rightarrow>
                 if strict_eq category categoryName then
                   (case invoke fs i loggingEvent w of
                      Inl e \<Rightarrow> Inl e
                    | Inr w' \<Rightarrow> master_loop config fs loggingEvent is w')
                 else master_loop config fs loggingEvent is w)))"

definition masterAppender :: "'w config \<Rightarrow> jsval \<Rightarrow> 'w \<Rightarrow> exn + 'w" where
  "masterAppender config loggingEvent w =
     (case actualAppenders config of
        None \<Rightarrow> Inr w
      | Some fs \<Rightarrow> master_loop config fs loggingEvent [0 ..< length fs] w)"

text \<open>The worker a \<^verbatim>\<open>fork\<close> event announces: \<^verbatim>\<open>worker.process.pid\<close> and \<^verbatim>\<open>worker.id\<close>.\<close>

record worker =
  process_pid :: int
  worker_id :: int

text \<open>
  The listener on a worker's messages; \<open>None\<close> when \<^verbatim>\<open>deserializeLoggingEvent\<close> never
  returns.
\<close>

definition on_message :: "env \<Rightarrow> 'w config \<Rightarrow> worker \<Rightarrow> jsval \<Rightarrow> 'w \<Rightarrow> (exn + 'w) option" where
  "on_message E config worker message w =
     (case get_prop message ''type'' of
        Inl e \<Rightarrow> Some (Inl e)
      | Inr ty \<Rightarrow>
          if truthy ty \<and> strict_eq ty (JStr ''::log-message'') then
            (case get_prop message ''event'' of
               Inl e \<Rightarrow> Some (Inl e)
             | Inr x \<Rightarrow>
                 (case deserializeLoggingEvent E x of
                    None \<Rightarrow> None
                  | Some ev0 \<Rightarrow>
                 (case set_prop ev0 ''pid'' (JNum (process_pid worker)) of
                    Inl e \<Rightarrow> Some (Inl e)
                  | Inr ev1 \<Rightarrow>
                 (case set_prop ev1 ''cluster''
                         (JObj [(''master'', JNum (pid E)),
                                (''worker'', JNum (process_pid worker)),
                                (''workerId'', JNum (worker_id worker))] []) of
                    Inl e \<Rightarrow> Some (Inl e)
                  | Inr loggingEvent \<Rightarrow> Some (masterAppender config loggingEvent w)))))
          else Some (Inr w))"

text \<open>
  The appender of a process that is not the master: in a worker it sends one message
  over the channel, here the list of the messages sent so far. The result is what it
  throws, if anything, with the channel as the call leaves it, so that a throw shows what
  has been sent; \<open>None\<close> when \<^verbatim>\<open>serializeLoggingEvent\<close> never returns.
\<close>

definition workerAppender :: "env \<Rightarrow> jsval \<Rightarrow> jsval list \<Rightarrow> (exn option \<times> jsval list) option" where
  "workerAppender E loggingEvent sent =
     (if isWorker E then
        (case serializeLoggingEvent E loggingEvent of
           None \<Rightarrow> None
         | Some (Inl e) \<Rightarrow> Some (Some e, sent)
         | Some (Inr (txt, ev)) \<Rightarrow>
             Some (None,
                   sent @ [JObj [(''type'', JStr ''::log-message''),
                                 (''event'', case txt of None \<Rightarrow> JUndefined | Some t \<Rightarrow> JStr t)] []]))
      else Some (None, sent))"

text \<open>
  \<^verbatim>\<open>createAppender(config)\<close>: the appender it returns, acting on the destinations' world
  and the channel, and the listener it has registered for the messages of every forked
  worker (none outside the master). A call of the appender gives the destinations' world
  or a throw, and the channel as the call leaves it.
\<close>

record 'w created =
  appender :: "jsval \<Rightarrow> 'w \<times> jsval list \<Rightarrow> ((exn + 'w) \<times> jsval list) option"
  listener :: "(worker \<Rightarrow> jsval \<Rightarrow> 'w \<Rightarrow> (exn + 'w) option) option"

definition createAppender :: "env \<Rightarrow> 'w config \<Rightarrow> 'w created" where
  "createAppender E config =
     (if isMaster E then
        \<lparr> appender = (\<lambda>loggingEvent (w, sent). Some (masterAppender config loggingEvent w, sent)),
          listener = Some (on_message E config) \<rparr>
      else
        \<lparr> appender = (\<lambda>loggingEvent (w, sent).
              case workerAppender E loggingEvent sent of
                None \<Rightarrow> None
              | Some (Some e, sent') \<Rightarrow> Some (Inl e, sent')
              | Some (None, sent') \<Rightarrow> Some (Inr w, sent')),
          listener = None \<rparr>)"

text \<open>
  \<^verbatim>\<open>configure(config, options)\<close>. \<^verbatim>\<open>log4js.loadAppender\<close> and
  \<^verbatim>\<open>log4js.appenderMakers\<close> belong to the host: \<open>maker type descriptor options\<close> is the
  destination they make for a descriptor, or their throw. The configuration is changed
  in place, so it is returned with the appender.
\<close>

fun make_appenders :: "(jsval \<Rightarrow> jsval \<Rightarrow> jsval \<Rightarrow> exn + 'w appender) \<Rightarrow> jsval \<Rightarrow> jsval list \<Rightarrow> exn + 'w appender list" where
  "make_appenders maker options [] = Inr []"
| "make_appenders maker options (d # ds) =
     (case get_prop d ''type'' of
        Inl e \<Rightarrow> Inl e
      | Inr ty \<Rightarrow>
     (case maker ty d options of
        Inl e \<Rightarrow> Inl e
      | Inr f \<Rightarrow>
     (case make_appenders maker options ds of
        Inl e \<Rightarrow> Inl e
      | Inr fs \<Rightarrow> Inr (f # fs))))"

definition configure ::
  "env \<Rightarrow> (jsval \<Rightarrow> jsval \<Rightarrow> jsval \<Rightarrow> exn + 'w appender) \<Rightarrow> 'w config \<Rightarrow> jsval \<Rightarrow> exn + 'w config \<times> 'w created" where
  "configure E maker config options =
     (case appenders config of
        Some ds \<Rightarrow>
          if isMaster E then
            (case make_appenders maker options ds of
               Inl e \<Rightarrow> Inl e
             | Inr fs \<Rightarrow>
                 Inr (config \<lparr> actualAppenders := Some fs \<rparr>,
                      createAppender E (config \<lparr> actualAppenders := Some fs \<rparr>)))
          else Inr (config, createAppender E config)
      | None \<Rightarrow> Inr (config, createAppender E config))"

text \<open>
  A destination that throws nothing and records its calls: the world is the list of the
  calls made so far, each the number of the destination and the event it was given.
\<close>

definition recorder :: "nat \<Rightarrow> (nat \<times> jsval) list appender" where
  "recorder i loggingEvent calls = Inr (calls @ [(i, loggingEvent)])"

text \<open>The test of \<^verbatim>\<open>masterAppender\<close> on a descriptor, with the event's category name.\<close>

definition selected :: "jsval \<Rightarrow> jsval \<Rightarrow> bool" where
  "selected descriptor categoryName =
     (case get_prop descriptor ''category'' of
        Inr category \<Rightarrow> \<not> truthy category \<or> strict_eq category categoryName
      | Inl e \<Rightarrow> False)"

text \<open>
  What one pass of each loop leaves at a position of \<^verbatim>\<open>data\<close>: the replacement when
  the test of the body holds, the element itself when it does not.
\<close>

definition rewrap :: "env \<Rightarrow> jsval \<Rightarrow> jsval" where
  "rewrap E item = (case serialize_item E item of Inr (Some x) \<Rightarrow> x | _ \<Rightarrow> item)"

definition unwrap :: "jsval \<Rightarrow> jsval" where
  "unwrap item = (case deserialize_item item of Inr (Some st) \<Rightarrow> st | _ \<Rightarrow> item)"

text \<open>
  What \<^verbatim>\<open>JSON.stringify\<close> followed by \<^verbatim>\<open>JSON.parse\<close> leaves of an array element the
  printer does not throw on.
\<close>

definition via_wire :: "env \<Rightarrow> jsval \<Rightarrow> jsval" where
  "via_wire E x = of_json (case to_json E x of Inr (Some j) \<Rightarrow> j | _ \<Rightarrow> Null)"

text \<open>
  The values the claims speak of: one \<^verbatim>\<open>item && item.stack\<close> holds of, and one the
  serializer is safe on, which has no such stack and which \<^verbatim>\<open>JSON.stringify\<close> and
  \<^verbatim>\<open>JSON.parse\<close> give back as it was.
\<close>

definition has_stack :: "jsval \<Rightarrow> bool" where
  "has_stack item =
     (truthy item \<and> (case get_prop item ''stack'' of Inr st \<Rightarrow> truthy st | Inl e \<Rightarrow> False))"


definition serializer_safe :: "env \<Rightarrow> jsval \<Rightarrow> bool" where
  "serializer_safe E x =
     (\<not> has_stack x \<and> (case to_json E x of Inr (Some j) \<Rightarrow> of_json j = x | _ \<Rightarrow> False))"

text \<open>
  A value with no BigInt in it, at any depth. The BigInt is the one value of the model
  that \<^verbatim>\<open>JSON.stringify\<close> throws on (the other, an object that contains itself, is no
  tree).
\<close>

fun no_bigint :: "jsval \<Rightarrow> bool"
  and no_bigint_list :: "jsval list \<Rightarrow> bool"
  and no_bigint_props :: "(string \<times> jsval) list \<Rightarrow> bool" where
  "no_bigint (JBigInt n) = False"
| "no_bigint (JArr xs) = no_bigint_list xs"
| "no_bigint (JObj ps hs) = (no_bigint_props ps \<and> no_bigint_props hs)"
| "no_bigint JUndefined = True"
| "no_bigint JNull = True"
| "no_bigint (JBool b) = True"
| "no_bigint (JNum n) = True"
| "no_bigint (JStr s) = True"
| "no_bigint (JDate t) = True"
| "no_bigint_list [] = True"
| "no_bigint_list (x # xs) = (no_bigint x \<and> no_bigint_list xs)"
| "no_bigint_props [] = True"
| "no_bigint_props ((k, x) # ps) = (no_bigint x \<and> no_bigint_props ps)"

section \<open>A reference runtime\<close>

text \<open>
  One runtime to run the definitions on: a JSON parser for the values of the model
  (a number literal with a fraction or an exponent denotes no integer, an escape
  \<^verbatim>\<open>\uXXXX\<close> above 00FF denotes no character of a \<open>string\<close>, and both are rejected; a
  repeated key keeps its first place and its last value), ISO 8601 timestamps in UTC, and
  a table of levels.
\<close>

definition is_digit :: "char \<Rightarrow> bool" where
  "is_digit c = (c \<in> set ''0123456789'')"

definition is_ws :: "char \<Rightarrow> bool" where
  "is_ws c = (c = CHR '' '' \<or> c = CHR 0x09 \<or> c = CHR 0x0A \<or> c = CHR 0x0D)"

definition digit_val :: "char \<Rightarrow> nat" where
  "digit_val c = of_char c - 48"

definition read_nat :: "string \<Rightarrow> nat" where
  "read_nat s = foldl (\<lambda>a c. 10 * a + digit_val c) 0 s"

definition hex_val :: "char \<Rightarrow> nat option" where
  "hex_val c =
     (if is_digit c then Some (of_char c - 48)
      else if c \<in> set ''abcdef'' then Some (of_char c - 87)
      else if c \<in> set ''ABCDEF'' then Some (of_char c - 55)
      else None)"

definition hex4 :: "string \<Rightarrow> char option" where
  "hex4 s =
     (case map hex_val s of
        [Some a, Some b, Some c, Some d] \<Rightarrow>
          if a = 0 \<and> b = 0 then Some (char_of (16 * c + d)) else None
      | _ \<Rightarrow> None)"

definition unescape :: "char \<Rightarrow> char option" where
  "unescape e =
     (if e = CHR ''\"'' then Some CHR ''\"''
      else if e = CHR 0x5C then Some (CHR 0x5C)
      else if e = CHR ''/'' then Some CHR ''/''
      else if e = CHR ''b'' then Some (CHR 0x08)
      else if e = CHR ''f'' then Some (CHR 0x0C)
      else if e = CHR ''n'' then Some (CHR 0x0A)
      else if e = CHR ''r'' then Some (CHR 0x0D)
      else if e = CHR ''t'' then Some (CHR 0x09)
      else None)"

fun parse_string :: "string \<Rightarrow> (string \<times> string) option" where
  "parse_string [] = None"
| "parse_string (c # cs) =
     (if c = CHR ''\"'' then Some ([], cs)
      else if c = CHR 0x5C then
        (case cs of
           [] \<Rightarrow> None
         | e # r \<Rightarrow>
             if e = CHR ''u'' then
               (case hex4 (take 4 r) of
                  None \<Rightarrow> None
                | Some ch \<Rightarrow> map_option (apfst ((#) ch)) (parse_string (drop 4 r)))
             else
               (case unescape e of
                  None \<Rightarrow> None
                | Some ch \<Rightarrow> map_option (apfst ((#) ch)) (parse_string r)))
      else if (of_char c :: nat) < 32 then None
      else map_option (apfst ((#) c)) (parse_string cs))"

definition parse_number :: "string \<Rightarrow> (json \<times> string) option" where
  "parse_number s =
     (let neg = (take 1 s = ''-'');
          s1 = (if neg then drop 1 s else s);
          ds = takeWhile is_digit s1;
          r = dropWhile is_digit s1
      in if ds = [] \<or> (hd ds = CHR ''0'' \<and> length ds > 1) then None
         else if r \<noteq> [] \<and> hd r \<in> set ''.eE'' then None
         else Some (Num (if neg then - int (read_nat ds) else int (read_nat ds)), r))"

fun parse_value :: "nat \<Rightarrow> string \<Rightarrow> (json \<times> string) option"
  and parse_elems :: "nat \<Rightarrow> string \<Rightarrow> (json list \<times> string) option"
  and parse_members :: "nat \<Rightarrow> string \<Rightarrow> ((string \<times> json) list \<times> string) option" where
  "parse_value 0 s = None"
| "parse_value (Suc n) s =
     (let t = dropWhile is_ws s in
      if take 4 t = ''null'' then Some (Null, drop 4 t)
      else if take 4 t = ''true'' then Some (Bool True, drop 4 t)
      else if take 5 t = ''false'' then Some (Bool False, drop 5 t)
      else if take 1 t = ''\"'' then map_option (apfst Str) (parse_string (drop 1 t))
      else if take 1 t = ''['' then
        (let u = dropWhile is_ws (drop 1 t) in
         if take 1 u = '']'' then Some (Arr [], drop 1 u)
         else map_option (apfst Arr) (parse_elems n u))
      else if take 1 t = ''{'' then
        (let u = dropWhile is_ws (drop 1 t) in
         if take 1 u = ''}'' then Some (Obj [], drop 1 u)
         else map_option (apfst Obj) (parse_members n u))
      else parse_number t)"
| "parse_elems 0 s = None"
| "parse_elems (Suc n) s =
     (case parse_value n s of
        None \<Rightarrow> None
      | Some (v, r) \<Rightarrow>
          (let t = dropWhile is_ws r in
           if take 1 t = '']'' then Some ([v], drop 1 t)
           else if take 1 t = '','' then map_option (apfst ((#) v)) (parse_elems n (drop 1 t))
           else None))"
| "parse_members 0 s = None"
| "parse_members (Suc n) s =
     (let t = dropWhile is_ws s in
      if take 1 t \<noteq> ''\"'' then None
      else case parse_string (drop 1 t) of
        None \<Rightarrow> None
      | Some (k, r) \<Rightarrow>
          (let u = dropWhile is_ws r in
           if take 1 u \<noteq> '':'' then None
           else case parse_value n (drop 1 u) of
             None \<Rightarrow> None
           | Some (v, r') \<Rightarrow>
               (let w = dropWhile is_ws r' in
                if take 1 w = ''}'' then Some ([(k, v)], drop 1 w)
                else if take 1 w = '','' then
                  map_option
                    (apfst (\<lambda>ps. (k, case map_of ps k of None \<Rightarrow> v | Some v' \<Rightarrow> v')
                                     # filter (\<lambda>p. fst p \<noteq> k) ps))
                    (parse_members n (drop 1 w))
                else None)))"

definition parse :: "string \<Rightarrow> json option" where
  "parse s =
     (case parse_value (Suc (length s)) s of
        None \<Rightarrow> None
      | Some (v, r) \<Rightarrow> if dropWhile is_ws r = [] then Some v else None)"

text \<open>
  For the proof that this parser reads back what \<^verbatim>\<open>JSON.stringify\<close> prints: what may
  follow a number in a printed text, the JSON values none of whose objects repeats a key,
  the fuel the parser needs for one, and the values none of whose objects repeats an
  enumerable property.
\<close>

definition ends_number :: "string \<Rightarrow> bool" where
  "ends_number r = (r = [] \<or> hd r \<in> set '',]}'')"

fun distinct_keys :: "json \<Rightarrow> bool"
  and distinct_keys_elems :: "json list \<Rightarrow> bool"
  and distinct_keys_props :: "(string \<times> json) list \<Rightarrow> bool" where
  "distinct_keys Null = True"
| "distinct_keys (Bool b) = True"
| "distinct_keys (Num n) = True"
| "distinct_keys (Str s) = True"
| "distinct_keys (Arr xs) = distinct_keys_elems xs"
| "distinct_keys (Obj ps) = distinct_keys_props ps"
| "distinct_keys_elems [] = True"
| "distinct_keys_elems (x # xs) = (distinct_keys x \<and> distinct_keys_elems xs)"
| "distinct_keys_props [] = True"
| "distinct_keys_props ((k, x) # ps) = (map_of ps k = None \<and> distinct_keys x \<and> distinct_keys_props ps)"

fun fuel :: "json \<Rightarrow> nat"
  and fuel_elems :: "json list \<Rightarrow> nat"
  and fuel_props :: "(string \<times> json) list \<Rightarrow> nat" where
  "fuel Null = 0"
| "fuel (Bool b) = 0"
| "fuel (Num n) = 0"
| "fuel (Str s) = 0"
| "fuel (Arr xs) = Suc (fuel_elems xs)"
| "fuel (Obj ps) = Suc (fuel_props ps)"
| "fuel_elems [] = 0"
| "fuel_elems (x # xs) = Suc (fuel x + fuel_elems xs)"
| "fuel_props [] = 0"
| "fuel_props ((k, x) # ps) = Suc (fuel x + fuel_props ps)"

fun distinct_props :: "jsval \<Rightarrow> bool"
  and distinct_props_elems :: "jsval list \<Rightarrow> bool"
  and distinct_props_props :: "(string \<times> jsval) list \<Rightarrow> bool" where
  "distinct_props (JArr xs) = distinct_props_elems xs"
| "distinct_props (JObj ps hs) = distinct_props_props ps"
| "distinct_props JUndefined = True"
| "distinct_props JNull = True"
| "distinct_props (JBool b) = True"
| "distinct_props (JNum n) = True"
| "distinct_props (JBigInt n) = True"
| "distinct_props (JStr s) = True"
| "distinct_props (JDate t) = True"
| "distinct_props_elems [] = True"
| "distinct_props_elems (x # xs) = (distinct_props x \<and> distinct_props_elems xs)"
| "distinct_props_props [] = True"
| "distinct_props_props ((k, x) # ps) =
     (map_of ps k = None \<and> distinct_props x \<and> distinct_props_props ps)"

text \<open>The calendar date of a day number counted from 1970-01-01, and back.\<close>

definition civil_from_days :: "int \<Rightarrow> int \<times> int \<times> int" where
  "civil_from_days z0 =
     (let z = z0 + 719468;
          era = z div 146097;
          doe = z mod 146097;
          yoe = (doe - doe div 1460 + doe div 36524 - doe div 146096) div 365;
          doy = doe - (365 * yoe + yoe div 4 - yoe div 100);
          mp = (5 * doy + 2) div 153;
          d = doy - (153 * mp + 2) div 5 + 1;
          m = (if mp < 10 then mp + 3 else mp - 9);
          y = yoe + era * 400
      in (if m \<le> 2 then y + 1 else y, m, d))"

definition days_from_civil :: "int \<Rightarrow> int \<Rightarrow> int \<Rightarrow> int" where
  "days_from_civil y0 m d =
     (let y = (if m \<le> 2 then y0 - 1 else y0);
          era = y div 400;
          yoe = y mod 400;
          doy = (153 * (if m > 2 then m - 3 else m + 9) + 2) div 5 + d - 1;
          doe = yoe * 365 + yoe div 4 - yoe div 100 + doy
      in era * 146097 + doe - 719468)"

definition pad :: "nat \<Rightarrow> int \<Rightarrow> string" where
  "pad w n = replicate (w - length (digits (nat n))) CHR ''0'' @ digits (nat n)"

definition iso_of_time :: "int \<Rightarrow> string" where
  "iso_of_time t =
     (let ms = t mod 86400000;
          (y, m, d) = civil_from_days (t div 86400000)
      in (if 0 \<le> y \<and> y \<le> 9999 then pad 4 y
          else (if y < 0 then CHR ''-'' else CHR ''+'') # pad 6 (abs y))
         @ CHR ''-'' # pad 2 m @ CHR ''-'' # pad 2 d
         @ CHR ''T'' # pad 2 (ms div 3600000) @ CHR '':'' # pad 2 (ms div 60000 mod 60)
         @ CHR '':'' # pad 2 (ms div 1000 mod 60) @ CHR ''.'' # pad 3 (ms mod 1000) @ ''Z'')"

definition time_of_fields :: "bool \<Rightarrow> string \<Rightarrow> string \<Rightarrow> int option" where
  "time_of_fields neg ys r =
     (let num = (\<lambda>i n. int (read_nat (take n (drop i r))));
          y = (if neg then - int (read_nat ys) else int (read_nat ys));
          m = num 1 2; d = num 4 2; h = num 7 2; mi = num 10 2; sec = num 13 2; ms = num 16 3
      in if length r = 20
            \<and> map ((!) r) [0, 3, 6, 9, 12, 15, 19] = ''--T::.Z''
            \<and> list_all is_digit (ys @ map ((!) r) [1, 2, 4, 5, 7, 8, 10, 11, 13, 14, 16, 17, 18])
            \<and> 1 \<le> m \<and> m \<le> 12 \<and> 1 \<le> d \<and> d \<le> 31 \<and> h < 24 \<and> mi < 60 \<and> sec < 60
         then Some (86400000 * days_from_civil y m d
                    + 3600000 * h + 60000 * mi + 1000 * sec + ms)
         else None)"

definition time_of_iso :: "string \<Rightarrow> int option" where
  "time_of_iso s =
     (if take 1 s = ''+'' \<or> take 1 s = ''-''
      then (if length s = 27 then time_of_fields (take 1 s = ''-'') (take 6 (drop 1 s)) (drop 7 s) else None)
      else (if length s = 24 then time_of_fields False (take 4 s) (drop 4 s) else None))"

text \<open>
  The one-argument \<^verbatim>\<open>Date\<close> constructor: a number is the time value, a string is read
  as an ISO timestamp, undefined gives an invalid date, null and booleans convert to
  numbers, a BigInt throws; any other string or value gives an invalid date here.
\<close>

definition node_newDate :: "jsval \<Rightarrow> exn + int option" where
  "node_newDate v =
     (case v of
        JNum n \<Rightarrow> Inr (Some n)
      | JStr s \<Rightarrow> Inr (time_of_iso s)
      | JNull \<Rightarrow> Inr (Some 0)
      | JBool b \<Rightarrow> Inr (Some (if b then 1 else 0))
      | JDate t \<Rightarrow> Inr t
      | JBigInt n \<Rightarrow> Inl TypeError
      | _ \<Rightarrow> Inr None)"

text \<open>\<^verbatim>\<open>ToNumber\<close> of a value that is not a number, for a loop bound.\<close>

definition node_ToNumber :: "jsval \<Rightarrow> exn + int option" where
  "node_ToNumber v =
     (case v of
        JNum n \<Rightarrow> Inr (Some n)
      | JBigInt n \<Rightarrow> Inr (Some n)
      | JNull \<Rightarrow> Inr (Some 0)
      | JBool b \<Rightarrow> Inr (Some (if b then 1 else 0))
      | JStr s \<Rightarrow> Inr (if list_all is_digit s then Some (int (read_nat s)) else None)
      | JDate t \<Rightarrow> Inr t
      | _ \<Rightarrow> Inr None)"

text \<open>
  \<^verbatim>\<open>ToString\<close> of a value that is not a string. An array joins its elements with
  commas, undefined and null elements as the empty text. The text of a date depends on
  the time zone; its ISO form stands for it here.
\<close>

fun node_ToString :: "jsval \<Rightarrow> string"
  and node_join :: "jsval list \<Rightarrow> string list" where
  "node_ToString JUndefined = ''undefined''"
| "node_ToString JNull = ''null''"
| "node_ToString (JBool b) = (if b then ''true'' else ''false'')"
| "node_ToString (JNum n) = show_int n"
| "node_ToString (JBigInt n) = show_int n"
| "node_ToString (JStr s) = s"
| "node_ToString (JDate None) = ''Invalid Date''"
| "node_ToString (JDate (Some t)) = iso_of_time t"
| "node_ToString (JArr xs) = commas (node_join xs)"
| "node_ToString (JObj ps hs) = ''[object Object]''"
| "node_join [] = []"
| "node_join (x # xs) =
     (if x = JUndefined \<or> x = JNull then [] else node_ToString x) # node_join xs"

text \<open>
  Modelled from the spec: \<^verbatim>\<open>lib/levels.js\<close> is not among the sources. A level is
  an ordered severity represented canonically by a name string \<^verbatim>\<open>levelStr\<close> and
  reconstructed from that name on decode; the spec names DEBUG < INFO < WARN < ERROR.
  A name that is no level's gives undefined.
\<close>

definition Level :: "int \<Rightarrow> string \<Rightarrow> jsval" where
  "Level n name = JObj [(''level'', JNum n), (''levelStr'', JStr name)] []"

definition levels :: "(string \<times> jsval) list" where
  "levels = [(''DEBUG'', Level 10000 ''DEBUG''), (''INFO'', Level 20000 ''INFO''),
             (''WARN'', Level 30000 ''WARN''), (''ERROR'', Level 40000 ''ERROR'')]"

definition node_toLevel :: "jsval \<Rightarrow> exn + jsval" where
  "node_toLevel v =
     (case v of
        JStr s \<Rightarrow> (case map_of levels s of Some l \<Rightarrow> Inr l | None \<Rightarrow> Inr JUndefined)
      | _ \<Rightarrow> Inr JUndefined)"

text \<open>
  The reference runtime in a coordinator process with pid 100, at the instant
  2026-01-01T00:00:00.000Z, and in a worker process with pid 101.
\<close>

definition node :: env where
  "node = \<lparr> JSON_parse = parse, newDate = node_newDate, toISOString = iso_of_time,
            ToNumber = node_ToNumber, ToString = (\<lambda>v. Inr (node_ToString v)),
            now = 1767225600000, toLevel = node_toLevel,
            ERROR = Level 40000 ''ERROR'', isMaster = True, isWorker = False, pid = 100 \<rparr>"

definition node_worker :: env where
  "node_worker = node \<lparr> isMaster := False, isWorker := True, pid := 101 \<rparr>"

section \<open>Running the reference runtime\<close>

lemma node_simps:
  "JSON_parse node = parse" "newDate node = node_newDate" "toISOString node = iso_of_time"
  "ToNumber node = node_ToNumber" "now node = 1767225600000" "toLevel node = node_toLevel"
  "ERROR node = Level 40000 ''ERROR''" "isMaster node" "\<not> isWorker node" "pid node = 100"
  by (simp_all add: node_def)

lemmas run_parse = parse_def Let_def parse_number_def is_ws_def is_digit_def read_nat_def digit_val_def

lemma node_worker_simps:
  "JSON_parse node_worker = parse" "newDate node_worker = node_newDate"
  "toISOString node_worker = iso_of_time" "ToNumber node_worker = node_ToNumber"
  "toLevel node_worker = node_toLevel" "\<not> isMaster node_worker" "isWorker node_worker"
  "pid node_worker = 101"
  by (simp_all add: node_worker_def node_def)

section \<open>The reference parser reads back what is printed\<close>

lemma to_json_of_json:
  "to_json E (of_json j) = Inr (Some j)"
  "to_json_elems E (map of_json js) = Inr js"
  "to_json_props E (map (map_prod id of_json) ps) = Inr ps"
  by (induction j and js and ps rule: render_render_elems_render_props.induct)
     (auto simp: id_def)

lemma digit_table:
  "list_all (\<lambda>k. is_digit (''0123456789'' ! k) \<and> digit_val (''0123456789'' ! k) = k
                 \<and> (0 < k \<longrightarrow> ''0123456789'' ! k \<noteq> CHR ''0'')) [0 ..< 10]"
  by code_simp

lemma digit_nth:
  assumes "k < 10"
  shows "is_digit (''0123456789'' ! k) \<and> digit_val (''0123456789'' ! k) = k
         \<and> (0 < k \<longrightarrow> ''0123456789'' ! k \<noteq> CHR ''0'')"
proof -
  have "k \<in> set [0 ..< 10]" using assms by simp
  then show ?thesis using digit_table unfolding list_all_iff by blast
qed

lemma digits_nonempty: "digits n \<noteq> []"
  by (subst digits.simps) simp

lemma digits_all: "list_all is_digit (digits n)"
proof (induction n rule: digits.induct)
  case (1 n)
  show ?case
  proof (cases "n < 10")
    case True
    then show ?thesis using digit_nth[of n] by (simp add: digits_small)
  next
    case False
    then show ?thesis using 1 digit_nth[of "n mod 10"] by (simp add: digits_large)
  qed
qed

lemma read_nat_snoc: "read_nat (xs @ [c]) = 10 * read_nat xs + digit_val c"
  by (simp add: read_nat_def)

lemma read_nat_digits: "read_nat (digits n) = n"
proof (induction n rule: digits.induct)
  case (1 n)
  show ?case
  proof (cases "n < 10")
    case True
    then show ?thesis using digit_nth[of n] by (simp add: digits_small read_nat_def)
  next
    case False
    then show ?thesis using 1 digit_nth[of "n mod 10"]
      by (simp add: digits_large read_nat_snoc)
  qed
qed

lemma hd_digits: "0 < n \<Longrightarrow> hd (digits n) \<noteq> CHR ''0''"
proof (induction n rule: digits.induct)
  case (1 n)
  show ?case
  proof (cases "n < 10")
    case True
    then show ?thesis using digit_nth[of n] 1(2) by (simp add: digits_small)
  next
    case False
    then have "0 < n div 10" by simp
    then show ?thesis using 1(1) False digits_nonempty[of "n div 10"]
      by (simp add: digits_large)
  qed
qed

lemma digits_no_leading_zero: "\<not> (hd (digits n) = CHR ''0'' \<and> length (digits n) > 1)"
proof (cases "n < 10")
  case True
  then show ?thesis by (simp add: digits_small)
next
  case False
  then show ?thesis using hd_digits[of n] by simp
qed

lemma takeWhile_digits:
  "ends_number r \<Longrightarrow> takeWhile is_digit (digits n @ r) = digits n \<and> dropWhile is_digit (digits n @ r) = r"
proof -
  assume "ends_number r"
  then have "r = [] \<or> \<not> is_digit (hd r)" by (auto simp: ends_number_def is_digit_def)
  moreover have "\<forall>c \<in> set (digits n). is_digit c" using digits_all[of n] by (simp add: list_all_iff)
  ultimately show ?thesis
    by (cases r) (auto simp: takeWhile_append2 dropWhile_append2 takeWhile_tail)
qed

lemma parse_number_show_int:
  assumes "ends_number r"
  shows "parse_number (show_int n @ r) = Some (Num n, r)"
proof (cases "n < 0")
  case True
  have "r = [] \<or> hd r \<notin> set ''.eE''" using assms by (auto simp: ends_number_def)
  then show ?thesis
    using True takeWhile_digits[OF assms, of "nat (- n)"] digits_nonempty[of "nat (- n)"]
      digits_no_leading_zero[of "nat (- n)"] read_nat_digits[of "nat (- n)"]
    by (auto simp: parse_number_def show_int_def Let_def)
next
  case False
  have e: "r = [] \<or> hd r \<notin> set ''.eE''" using assms by (auto simp: ends_number_def)
  have "hd (digits (nat n)) \<noteq> CHR ''-''"
    using digits_all[of "nat n"] digits_nonempty[of "nat n"]
    by (cases "digits (nat n)") (auto simp: is_digit_def)
  then have "take 1 (digits (nat n) @ r) \<noteq> ''-''"
    using digits_nonempty[of "nat n"] by (cases "digits (nat n)") auto
  then show ?thesis
    using False e takeWhile_digits[OF assms, of "nat n"] digits_nonempty[of "nat n"]
      digits_no_leading_zero[of "nat n"] read_nat_digits[of "nat n"]
    by (auto simp: parse_number_def show_int_def Let_def)
qed


lemma hex_table: "list_all (\<lambda>k. hex_val (hex_digit k) = Some k) [0 ..< 16]"
  by code_simp

lemma hex_val_hex_digit: "k < 16 \<Longrightarrow> hex_val (hex_digit k) = Some k"
proof -
  assume "k < 16"
  then have "k \<in> set [0 ..< 16]" by simp
  then show ?thesis using hex_table unfolding list_all_iff by blast
qed

lemma hex4_char:
  assumes "(of_char c :: nat) < 32"
  shows "hex4 [CHR ''0'', CHR ''0'', hex_digit (of_char c div 16), hex_digit (of_char c mod 16)] = Some c"
proof -
  have "(of_char c :: nat) div 16 < 16" "(of_char c :: nat) mod 16 < 16" using assms by auto
  then have "hex_val (hex_digit (of_char c div 16)) = Some (of_char c div 16)"
    "hex_val (hex_digit (of_char c mod 16)) = Some (of_char c mod 16)"
    by (simp_all add: hex_val_hex_digit)
  moreover have "hex_val CHR ''0'' = Some 0" by (simp add: hex_val_def is_digit_def)
  ultimately show ?thesis by (simp add: hex4_def)
qed

lemma parse_string_quote_char:
  "parse_string (quote_char c @ rest) = map_option (apfst ((#) c)) (parse_string rest)"
proof -
  consider (quote) "c = CHR ''\"''" | (bs) "c = CHR 0x5C" | (b) "c = CHR 0x08" | (t) "c = CHR 0x09"
    | (n) "c = CHR 0x0A" | (f) "c = CHR 0x0C" | (r) "c = CHR 0x0D"
    | (ctl) "c \<notin> {CHR ''\"'', CHR 0x5C, CHR 0x08, CHR 0x09, CHR 0x0A, CHR 0x0C, CHR 0x0D}" "(of_char c :: nat) < 32"
    | (plain) "c \<notin> {CHR ''\"'', CHR 0x5C, CHR 0x08, CHR 0x09, CHR 0x0A, CHR 0x0C, CHR 0x0D}" "\<not> (of_char c :: nat) < 32"
    by blast
  then show ?thesis
  proof cases
    case ctl
    then show ?thesis using hex4_char[OF ctl(2)]
      by (simp add: quote_char_def unescape_def)
  next
    case plain
    then show ?thesis by (simp add: quote_char_def)
  qed (simp_all add: quote_char_def unescape_def)
qed

lemma parse_string_quoted:
  "parse_string (concat (map quote_char s) @ CHR ''\"'' # r) = Some (s, r)"
  by (induction s) (simp_all add: parse_string_quote_char)

lemma parse_string_quote: "parse_string (tl (quote s) @ r) = Some (s, r)"
  using parse_string_quoted[of s r] by (simp add: quote_def)


lemma show_int_hd: "\<exists>c cs. show_int n = c # cs \<and> c \<in> set ''-0123456789''"
proof (cases "n < 0")
  case True
  then show ?thesis by (simp add: show_int_def)
next
  case False
  obtain c cs where d: "digits (nat n) = c # cs"
    using digits_nonempty[of "nat n"] by (cases "digits (nat n)") auto
  then have "is_digit c" using digits_all[of "nat n"] by simp
  then show ?thesis using False d by (simp add: show_int_def is_digit_def)
qed

lemma render_hd: "\<exists>c cs. render j = c # cs \<and> c \<in> set ''ntf\"[{-0123456789''"
proof (cases j)
  case Null
  then show ?thesis by simp
next
  case (Bool b)
  then show ?thesis by simp
next
  case (Num n)
  obtain c cs where "show_int n = c # cs" "c \<in> set ''-0123456789''"
    using show_int_hd by blast
  then show ?thesis using Num by simp
next
  case (Str s)
  then show ?thesis by (simp add: quote_def)
next
  case (Arr xs)
  then show ?thesis by simp
next
  case (Obj ps)
  then show ?thesis by simp
qed

lemma commas_Cons:
  "commas (x # xs) = x @ (if xs = [] then [] else CHR '','' # commas xs)"
  by (cases xs) auto

lemma parse_value_Num:
  assumes "ends_number r"
  shows "parse_value (Suc n) (show_int k @ r) = Some (Num k, r)"
proof -
  obtain c cs where c: "show_int k = c # cs" "c \<in> set ''-0123456789''"
    using show_int_hd by blast
  have nws: "\<not> is_ws c" using c(2) by (auto simp: is_ws_def)
  have ne: "c \<noteq> CHR ''n''" "c \<noteq> CHR ''t''" "c \<noteq> CHR ''f''" "c \<noteq> CHR ''\"''"
    "c \<noteq> CHR ''[''" "c \<noteq> CHR ''{''"
    using c(2) by auto
  have "parse_value (Suc n) (c # cs @ r) = parse_number (c # cs @ r)"
    by (simp add: Let_def nws ne)
  then show ?thesis using parse_number_show_int[OF assms, of k] c(1) by simp
qed

lemma parse_value_Str: "parse_value (Suc n) (quote s @ r) = Some (Str s, r)"
  using parse_string_quote[of s r] by (simp add: quote_def Let_def is_ws_def)


lemma render_elems_Nil: "render_elems xs = [] \<longleftrightarrow> xs = []"
  by (cases xs) auto

lemma render_props_Nil: "render_props ps = [] \<longleftrightarrow> ps = []"
  by (cases ps) auto

lemma commas_elems_hd:
  "xs \<noteq> [] \<Longrightarrow> \<exists>c cs. commas (render_elems xs) = c # cs \<and> c \<in> set ''ntf\"[{-0123456789''"
proof (cases xs)
  case (Cons x xs')
  obtain c cs where "render x = c # cs" "c \<in> set ''ntf\"[{-0123456789''"
    using render_hd by blast
  then show ?thesis using Cons by (simp add: commas_Cons)
qed simp

lemma commas_props_hd:
  "ps \<noteq> [] \<Longrightarrow> \<exists>cs. commas (render_props ps) = CHR ''\"'' # cs"
proof (cases ps)
  case (Cons p ps')
  obtain k x where "p = (k, x)" by (cases p)
  then show ?thesis using Cons by (simp add: commas_Cons quote_def)
qed simp

lemma parse_value_empty_array: "parse_value (Suc m) (CHR ''['' # CHR '']'' # r) = Some (Arr [], r)"
  by (simp add: Let_def is_ws_def)

lemma parse_value_empty_object: "parse_value (Suc m) (CHR ''{'' # CHR ''}'' # r) = Some (Obj [], r)"
  by (simp add: Let_def is_ws_def)

lemma parse_value_array:
  "\<not> is_ws c \<Longrightarrow> c \<noteq> CHR '']'' \<Longrightarrow>
   parse_value (Suc m) (CHR ''['' # c # cs) = map_option (apfst Arr) (parse_elems m (c # cs))"
  by (simp add: Let_def is_ws_def)

lemma parse_value_object:
  "parse_value (Suc m) (CHR ''{'' # CHR ''\"'' # cs) =
     map_option (apfst Obj) (parse_members m (CHR ''\"'' # cs))"
  by (simp add: Let_def is_ws_def)

lemma parse_elems_last:
  "parse_value m s = Some (v, CHR '']'' # rest) \<Longrightarrow> parse_elems (Suc m) s = Some ([v], rest)"
  by (simp add: Let_def is_ws_def)

lemma parse_elems_more:
  "parse_value m s = Some (v, CHR '','' # rest) \<Longrightarrow>
   parse_elems (Suc m) s = map_option (apfst ((#) v)) (parse_elems m rest)"
  by (simp add: Let_def is_ws_def)

lemma parse_members_last:
  "parse_value m s = Some (v, CHR ''}'' # rest) \<Longrightarrow>
   parse_members (Suc m) (quote k @ CHR '':'' # s) = Some ([(k, v)], rest)"
  using parse_string_quote[of k "CHR '':'' # s"]
  by (simp add: quote_def Let_def is_ws_def)

lemma parse_members_more:
  "parse_value m s = Some (v, CHR '','' # rest) \<Longrightarrow>
   parse_members (Suc m) (quote k @ CHR '':'' # s) =
     map_option (apfst (\<lambda>ps. (k, case map_of ps k of None \<Rightarrow> v | Some v' \<Rightarrow> v')
                              # filter (\<lambda>p. fst p \<noteq> k) ps))
       (parse_members m rest)"
  using parse_string_quote[of k "CHR '':'' # s"]
  by (simp add: quote_def Let_def is_ws_def)

lemma filter_absent: "map_of ps k = None \<Longrightarrow> filter (\<lambda>p. fst p \<noteq> k) ps = ps"
  by (induction ps) (auto split: if_splits)

lemma parse_render:
  "fuel j < n \<Longrightarrow> ends_number r \<Longrightarrow> distinct_keys j \<Longrightarrow>
     parse_value n (render j @ r) = Some (j, r)"
  "xs \<noteq> [] \<Longrightarrow> fuel_elems xs < n \<Longrightarrow> distinct_keys_elems xs \<Longrightarrow>
     parse_elems n (commas (render_elems xs) @ CHR '']'' # r) = Some (xs, r)"
  "ps \<noteq> [] \<Longrightarrow> fuel_props ps < n \<Longrightarrow> distinct_keys_props ps \<Longrightarrow>
     parse_members n (commas (render_props ps) @ CHR ''}'' # r) = Some (ps, r)"
proof (induction j and xs and ps arbitrary: n r and n r and n r
    rule: render_render_elems_render_props.induct)
  case 1
  then obtain m where "n = Suc m" by (cases n) auto
  then show ?case by (simp add: Let_def is_ws_def)
next
  case (2 b)
  then obtain m where "n = Suc m" by (cases n) auto
  then show ?case by (simp add: Let_def is_ws_def)
next
  case (3 k)
  then obtain m where "n = Suc m" by (cases n) auto
  then show ?case using parse_value_Num[OF 3(2)] by simp
next
  case (4 s)
  then obtain m where "n = Suc m" by (cases n) auto
  then show ?case using parse_value_Str by simp
next
  case (5 xs)
  then obtain m where n: "n = Suc m" and m: "fuel_elems xs < m" by (cases n) auto
  show ?case
  proof (cases "xs = []")
    case True
    then show ?thesis using n parse_value_empty_array by simp
  next
    case False
    obtain c cs where c: "commas (render_elems xs) = c # cs" "c \<in> set ''ntf\"[{-0123456789''"
      using commas_elems_hd[OF False] by blast
    have nws: "\<not> is_ws c" "c \<noteq> CHR '']''" using c(2) by (auto simp: is_ws_def)
    have "parse_elems m (commas (render_elems xs) @ CHR '']'' # r) = Some (xs, r)"
      using "5.IH"[OF False m] "5.prems"(3) by simp
    then show ?thesis using n c(1) parse_value_array[OF nws, of m "cs @ CHR '']'' # r"] by simp
  qed
next
  case (6 ps)
  then obtain m where n: "n = Suc m" and m: "fuel_props ps < m" by (cases n) auto
  show ?case
  proof (cases "ps = []")
    case True
    then show ?thesis using n parse_value_empty_object by simp
  next
    case False
    obtain cs where c: "commas (render_props ps) = CHR ''\"'' # cs"
      using commas_props_hd[OF False] by blast
    have "parse_members m (commas (render_props ps) @ CHR ''}'' # r) = Some (ps, r)"
      using "6.IH"[OF False m] "6.prems"(3) by simp
    then show ?thesis using n c parse_value_object[of m "cs @ CHR ''}'' # r"] by simp
  qed
next
  case 7
  then show ?case by simp
next
  case (8 x xs)
  then obtain m where n: "n = Suc m" and m: "fuel x + fuel_elems xs < m" by (cases n) auto
  let ?rest = "(if xs = [] then [] else CHR '','' # commas (render_elems xs)) @ CHR '']'' # r"
  have e: "ends_number ?rest" by (simp add: ends_number_def)
  have v: "parse_value m (render x @ ?rest) = Some (x, ?rest)"
    using "8.IH"(1)[OF _ e] m "8.prems"(3) by simp
  show ?case
  proof (cases "xs = []")
    case True
    then show ?thesis using n v parse_elems_last[of m "render x @ CHR '']'' # r" x r]
      by simp
  next
    case False
    have "parse_elems m (commas (render_elems xs) @ CHR '']'' # r) = Some (xs, r)"
      using "8.IH"(2)[OF False] m "8.prems"(3) by simp
    then show ?thesis
      using n v False
        parse_elems_more[of m "render x @ CHR '','' # commas (render_elems xs) @ CHR '']'' # r" x
          "commas (render_elems xs) @ CHR '']'' # r"]
      by (simp add: commas_Cons render_elems_Nil)
  qed
next
  case 9
  then show ?case by simp
next
  case (10 k x ps)
  then obtain m where n: "n = Suc m" and m: "fuel x + fuel_props ps < m" by (cases n) auto
  let ?rest = "(if ps = [] then [] else CHR '','' # commas (render_props ps)) @ CHR ''}'' # r"
  have e: "ends_number ?rest" by (simp add: ends_number_def)
  have v: "parse_value m (render x @ ?rest) = Some (x, ?rest)"
    using "10.IH"(1)[OF _ e] m "10.prems"(3) by simp
  show ?case
  proof (cases "ps = []")
    case True
    then show ?thesis using n v parse_members_last[of m "render x @ CHR ''}'' # r" x r k]
      by simp
  next
    case False
    have "parse_members m (commas (render_props ps) @ CHR ''}'' # r) = Some (ps, r)"
      using "10.IH"(2)[OF False] m "10.prems"(3) by simp
    then show ?thesis
      using n v False "10.prems"(3)
        parse_members_more[of m "render x @ CHR '','' # commas (render_props ps) @ CHR ''}'' # r" x
          "commas (render_props ps) @ CHR ''}'' # r" k]
      by (simp add: commas_Cons render_props_Nil filter_absent)
  qed
qed


lemma fuel_length:
  "fuel j < length (render j)"
  "fuel_elems xs \<le> length (commas (render_elems xs))"
  "fuel_props ps \<le> length (commas (render_props ps))"
proof (induction j and xs and ps rule: render_render_elems_render_props.induct)
  case (3 n)
  then show ?case using show_int_hd[of n] by auto
next
  case (4 s)
  then show ?case by (simp add: quote_def)
next
  case (8 x xs)
  then show ?case by (simp add: commas_Cons render_elems_Nil)
next
  case (10 k x ps)
  then show ?case by (simp add: commas_Cons render_props_Nil)
qed simp_all

lemma parse_render_value: "distinct_keys j \<Longrightarrow> parse (render j) = Some j"
  using parse_render(1)[of j "Suc (length (render j))" "[]"] fuel_length(1)[of j]
  by (simp add: parse_def ends_number_def)

lemma to_json_props_absent:
  "to_json_props E ps = Inr js \<Longrightarrow> map_of ps k = None \<Longrightarrow> map_of js k = None"
proof (induction ps arbitrary: js)
  case Nil
  then show ?case by simp
next
  case (Cons p ps)
  obtain k' v' where p: "p = (k', v')" by (cases p)
  show ?case using Cons p
    by (auto split: sum.splits option.splits if_splits)
qed

lemma to_json_distinct:
  "distinct_props v \<Longrightarrow> to_json E v = Inr (Some j) \<Longrightarrow> distinct_keys j"
  "distinct_props_elems xs \<Longrightarrow> to_json_elems E xs = Inr js \<Longrightarrow> distinct_keys_elems js"
  "distinct_props_props ps \<Longrightarrow> to_json_props E ps = Inr qs \<Longrightarrow> distinct_keys_props qs"
proof (induction E v and E xs and E ps arbitrary: j and js and qs
    rule: to_json_to_json_elems_to_json_props.induct)
  case (12 E x xs)
  then show ?case by (auto split: sum.splits option.splits)
next
  case (14 E k x ps)
  then show ?case by (auto split: sum.splits option.splits dest: to_json_props_absent)
qed (auto split: sum.splits)

lemma node_reads_back:
  "distinct_props v \<Longrightarrow> to_json node v = Inr (Some j) \<Longrightarrow> JSON_parse node (render j) = Some j"
  using to_json_distinct(1) parse_render_value by (simp add: node_simps)


lemma serializer_safe_of_json: "serializer_safe E (of_json j) = (\<not> has_stack (of_json j))"
  by (simp add: serializer_safe_def to_json_of_json(1))

section \<open>Reading and writing properties\<close>

lemma last_digits: "last (digits i) = ''0123456789'' ! (i mod 10)"
  by (subst digits.simps) simp

lemma digits_ne_length: "digits i \<noteq> ''length''"
proof
  assume "digits i = ''length''"
  then have "last (digits i) = CHR ''h''" by simp
  then have "''0123456789'' ! (i mod 10) = CHR ''h''" by (simp add: last_digits)
  moreover have "''0123456789'' ! (i mod 10) \<in> set ''0123456789''"
    by (rule nth_mem) simp
  ultimately show False by simp
qed

lemma map_of_upd_same: "map_of (upd k v ps) k = Some v"
  by (induction ps) auto

lemma map_of_upd_other: "k' \<noteq> k \<Longrightarrow> map_of (upd k v ps) k' = map_of ps k'"
  by (induction ps) auto

lemma set_data_get_data:
  "set_prop ev ''data'' v = Inr ev' \<Longrightarrow> get_prop ev ''data'' = Inr d \<Longrightarrow>
   get_prop d ''length'' = Inr l \<Longrightarrow> get_prop ev' ''data'' = Inr v"
  by (cases ev) (auto simp: map_of_upd_same split: if_splits option.splits)

lemma set_index_length:
  "set_index d i x = Inr d' \<Longrightarrow> get_index d i = Inr item \<Longrightarrow> truthy item \<Longrightarrow>
   get_prop d' ''length'' = get_prop d ''length''"
  using digits_ne_length[of i] digits_ne_length[of i, symmetric]
  by (cases d) (auto simp: map_of_upd_other split: if_splits option.splits)

lemma get_index_returns: "get_prop d k = Inr l \<Longrightarrow> \<exists>item. get_index d i = Inr item"
  by (cases d) (auto split: option.splits)

lemma set_index_returns:
  "get_index d i = Inr item \<Longrightarrow> has_stack item \<Longrightarrow> \<exists>d'. set_index d i x = Inr d'"
  by (cases d) (auto simp: has_stack_def split: if_splits)

lemma set_data_returns:
  "get_prop ev ''data'' = Inr d \<Longrightarrow> get_prop d ''length'' = Inr l \<Longrightarrow>
   \<exists>ev'. set_prop ev ''data'' d' = Inr ev'"
  by (cases ev) (auto split: if_splits option.splits)

lemma serialize_item_stack: "serialize_item E item = Inr (Some x) \<Longrightarrow> has_stack item"
  by (auto simp: serialize_item_def has_stack_def split: if_splits sum.splits)

lemma deserialize_item_stack: "deserialize_item item = Inr (Some x) \<Longrightarrow> has_stack item"
  by (auto simp: deserialize_item_def has_stack_def split: if_splits sum.splits)

lemma serialize_item_truthy: "serialize_item E item = Inr (Some x) \<Longrightarrow> truthy item"
  by (auto simp: serialize_item_def split: if_splits)

lemma deserialize_item_truthy: "deserialize_item item = Inr (Some x) \<Longrightarrow> truthy item"
  by (auto simp: deserialize_item_def split: if_splits)

section \<open>The loops on an array\<close>


lemma upd_same: "map_of ps k = Some v \<Longrightarrow> upd k v ps = ps"
  by (induction ps) (auto split: if_splits)

lemma upd_upd: "upd k v (upd k w ps) = upd k v ps"
  by (induction ps) auto

lemma deserialize_item_no_throw: "deserialize_item item \<noteq> Inl e"
  by (cases item) (auto simp: deserialize_item_def split: option.splits)

lemma increment_Suc: "i < 2 ^ 53 \<Longrightarrow> increment i = Suc i"
  by (simp add: increment_def)

lemma increment_le: "i \<le> 2 ^ 53 \<Longrightarrow> increment i \<le> 2 ^ 53"
  by (simp add: increment_def)

lemma less_than_mono: "less_than E k l = Inr True \<Longrightarrow> i \<le> k \<Longrightarrow> less_than E i l = Inr True"
  by (auto simp: less_than_def split: jsval.splits sum.splits option.splits)

lemma deserialize_loop_array:
  "map_of ps ''data'' = Some (JArr xs) \<Longrightarrow> length xs \<le> 2 ^ 53 \<Longrightarrow>
   deserialize_loop E (JObj ps hs) i =
     Some (Inr (JObj (upd ''data'' (JArr (take i xs @ map unwrap (drop i xs))) ps) hs))"
proof (induction "length xs - i" arbitrary: i xs ps)
  case 0
  then have "\<not> i < length xs" by simp
  with 0 show ?case
    by (subst deserialize_loop.simps) (simp add: less_than_def upd_same)
next
  case (Suc n)
  then have lt: "i < length xs" by simp
  then have inc: "increment i = Suc i" using Suc(4) by (simp add: increment_Suc)
  have dr: "drop i xs = xs ! i # drop (Suc i) xs" using lt by (simp add: Cons_nth_drop_Suc)
  show ?case
  proof (cases "deserialize_item (xs ! i)")
    case (Inl e)
    then show ?thesis by (simp add: deserialize_item_no_throw)
  next
    case (Inr r)
    show ?thesis
    proof (cases r)
      case None
      have "n = length xs - Suc i" using Suc(2) by simp
      from Suc(1)[OF this Suc(3) Suc(4)] have
        "deserialize_loop E (JObj ps hs) (Suc i) =
           Some (Inr (JObj (upd ''data'' (JArr (take (Suc i) xs @ map unwrap (drop (Suc i) xs))) ps) hs))" .
      moreover have "unwrap (xs ! i) = xs ! i" using Inr None by (simp add: unwrap_def)
      ultimately show ?thesis using lt Inr None Suc(3) dr inc
        by (subst deserialize_loop.simps) (simp add: less_than_def take_Suc_conv_app_nth)
    next
      case (Some st)
      let ?xs = "xs[i := st]"
      let ?ps = "upd ''data'' (JArr ?xs) ps"
      have n: "n = length ?xs - Suc i" using Suc(2) by simp
      have m: "map_of ?ps ''data'' = Some (JArr ?xs)" by (simp add: map_of_upd_same)
      have len: "length ?xs \<le> 2 ^ 53" using Suc(4) by simp
      from Suc(1)[OF n m len] have
        "deserialize_loop E (JObj ?ps hs) (Suc i) =
           Some (Inr (JObj (upd ''data'' (JArr (take (Suc i) ?xs @ map unwrap (drop (Suc i) ?xs))) ?ps) hs))" .
      moreover have "unwrap (xs ! i) = st" using Inr Some by (simp add: unwrap_def)
      moreover have "take (Suc i) ?xs = take i xs @ [st]"
        using lt by (simp add: take_Suc_conv_app_nth)
      ultimately show ?thesis using lt Inr Some Suc(3) dr inc
        by (subst deserialize_loop.simps) (simp add: less_than_def upd_upd)
    qed
  qed
qed

lemma serialize_loop_array:
  "map_of ps ''data'' = Some (JArr xs) \<Longrightarrow> length xs \<le> 2 ^ 53 \<Longrightarrow>
   serialize_loop E (JObj ps hs) i = Some (Inr r) \<Longrightarrow>
   r = JObj (upd ''data'' (JArr (take i xs @ map (rewrap E) (drop i xs))) ps) hs"
proof (induction "length xs - i" arbitrary: i xs ps)
  case 0
  then have "\<not> i < length xs" by simp
  with 0 show ?case
    by (subst (asm) serialize_loop.simps) (simp add: less_than_def upd_same)
next
  case (Suc n)
  then have lt: "i < length xs" by simp
  then have inc: "increment i = Suc i" using Suc(4) by (simp add: increment_Suc)
  have dr: "drop i xs = xs ! i # drop (Suc i) xs" using lt by (simp add: Cons_nth_drop_Suc)
  show ?case
  proof (cases "serialize_item E (xs ! i)")
    case (Inl e)
    then show ?thesis using Suc(3,5) lt
      by (subst (asm) serialize_loop.simps) (simp add: less_than_def)
  next
    case (Inr q)
    show ?thesis
    proof (cases q)
      case None
      have n: "n = length xs - Suc i" using Suc(2) by simp
      have "serialize_loop E (JObj ps hs) (Suc i) = Some (Inr r)"
        using Suc(5) lt Inr None Suc(3) inc
        by (subst (asm) serialize_loop.simps) (simp add: less_than_def)
      from Suc(1)[OF n Suc(3) Suc(4) this] have
        "r = JObj (upd ''data'' (JArr (take (Suc i) xs @ map (rewrap E) (drop (Suc i) xs))) ps) hs" .
      moreover have "rewrap E (xs ! i) = xs ! i" using Inr None by (simp add: rewrap_def)
      ultimately show ?thesis using lt dr by (simp add: take_Suc_conv_app_nth)
    next
      case (Some x)
      let ?xs = "xs[i := x]"
      let ?ps = "upd ''data'' (JArr ?xs) ps"
      have n: "n = length ?xs - Suc i" using Suc(2) by simp
      have m: "map_of ?ps ''data'' = Some (JArr ?xs)" by (simp add: map_of_upd_same)
      have len: "length ?xs \<le> 2 ^ 53" using Suc(4) by simp
      have "serialize_loop E (JObj ?ps hs) (Suc i) = Some (Inr r)"
        using Suc(5) lt Inr Some Suc(3) inc
        by (subst (asm) serialize_loop.simps) (simp add: less_than_def)
      from Suc(1)[OF n m len this] have
        "r = JObj (upd ''data'' (JArr (take (Suc i) ?xs @ map (rewrap E) (drop (Suc i) ?xs))) ?ps) hs" .
      moreover have "rewrap E (xs ! i) = x" using Inr Some by (simp add: rewrap_def)
      moreover have "take (Suc i) ?xs = take i xs @ [x]"
        using lt by (simp add: take_Suc_conv_app_nth)
      ultimately show ?thesis using lt dr by (simp add: upd_upd)
    qed
  qed
qed

lemma serialize_loop_array_total:
  "map_of ps ''data'' = Some (JArr xs) \<Longrightarrow> length xs \<le> 2 ^ 53 \<Longrightarrow>
   \<forall>x \<in> set (drop i xs). \<forall>e. serialize_item E x \<noteq> Inl e \<Longrightarrow>
   \<exists>r. serialize_loop E (JObj ps hs) i = Some (Inr r)"
proof (induction "length xs - i" arbitrary: i xs ps)
  case 0
  then have "\<not> i < length xs" by simp
  with 0 show ?case
    by (subst serialize_loop.simps) (simp add: less_than_def)
next
  case (Suc n)
  then have lt: "i < length xs" by simp
  then have inc: "increment i = Suc i" using Suc(4) by (simp add: increment_Suc)
  have dr: "drop i xs = xs ! i # drop (Suc i) xs" using lt by (simp add: Cons_nth_drop_Suc)
  show ?case
  proof (cases "serialize_item E (xs ! i)")
    case (Inl e)
    then show ?thesis using Suc(5) dr by simp
  next
    case (Inr q)
    show ?thesis
    proof (cases q)
      case None
      have n: "n = length xs - Suc i" using Suc(2) by simp
      have "\<forall>x \<in> set (drop (Suc i) xs). \<forall>e. serialize_item E x \<noteq> Inl e" using Suc(5) dr by simp
      from Suc(1)[OF n Suc(3) Suc(4) this] show ?thesis using lt Inr None Suc(3) inc
        by (subst serialize_loop.simps) (simp add: less_than_def)
    next
      case (Some x)
      let ?xs = "xs[i := x]"
      let ?ps = "upd ''data'' (JArr ?xs) ps"
      have n: "n = length ?xs - Suc i" using Suc(2) by simp
      have m: "map_of ?ps ''data'' = Some (JArr ?xs)" by (simp add: map_of_upd_same)
      have len: "length ?xs \<le> 2 ^ 53" using Suc(4) by simp
      have "\<forall>x \<in> set (drop (Suc i) ?xs). \<forall>e. serialize_item E x \<noteq> Inl e" using Suc(5) dr by simp
      from Suc(1)[OF n m len this] show ?thesis using lt Inr Some Suc(3) inc
        by (subst serialize_loop.simps) (simp add: less_than_def)
    qed
  qed
qed

text \<open>
  A loop whose bound is above 2^53 never returns: the counter stops at 2^53, below the
  bound, and no write to an element changes \<^verbatim>\<open>length\<close>. The loop of
  \<^verbatim>\<open>deserializeLoggingEvent\<close> has no other exit; the loop of \<^verbatim>\<open>serializeLoggingEvent\<close>
  may still throw.
\<close>

lemma deserialize_loop_forever_all:
  assumes "deserialize_loop E ev i = Some y"
  shows "\<forall>d l. get_prop ev ''data'' = Inr d \<longrightarrow> get_prop d ''length'' = Inr l \<longrightarrow>
                less_than E (2 ^ 53) l = Inr True \<longrightarrow> i \<le> 2 ^ 53 \<longrightarrow> False"
proof (rule deserialize_loop.raw_induct
    [where P = "\<lambda>E ev i y. \<forall>d l. get_prop ev ''data'' = Inr d \<longrightarrow> get_prop d ''length'' = Inr l \<longrightarrow>
                less_than E (2 ^ 53) l = Inr True \<longrightarrow> i \<le> 2 ^ 53 \<longrightarrow> False",
     OF _ assms], goal_cases)
  case (1 loop E ev i y)
  note IH = 1(1)[rule_format] and run = 1(2)
  show ?case
  proof (intro allI impI)
    fix d l
    assume d: "get_prop ev ''data'' = Inr d" and l: "get_prop d ''length'' = Inr l"
      and big: "less_than E (2 ^ 53) l = Inr True" and i: "i \<le> 2 ^ 53"
    have b: "less_than E i l = Inr True" using less_than_mono[OF big i] .
    have inc: "increment i \<le> 2 ^ 53" using i by (rule increment_le)
    obtain item where item: "get_index d i = Inr item"
      using get_index_returns[OF l] by blast
    show False
    proof (cases "deserialize_item item")
      case (Inl e)
      then show ?thesis by (simp add: deserialize_item_no_throw)
    next
      case (Inr q)
      show ?thesis
      proof (cases q)
        case None
        have "loop E ev (increment i) = Some y"
          using run d l b item Inr None by simp
        from IH[OF this d l big inc] show ?thesis .
      next
        case (Some st)
        have t: "truthy item" using Inr Some by (auto dest: deserialize_item_truthy)
        have "has_stack item" using Inr Some by (auto dest: deserialize_item_stack)
        then obtain d' where d': "set_index d i st = Inr d'"
          using set_index_returns[OF item] by blast
        obtain ev' where ev': "set_prop ev ''data'' d' = Inr ev'"
          using set_data_returns[OF d l] by blast
        have l': "get_prop d' ''length'' = Inr l"
          using set_index_length[OF d' item t] l by simp
        have data': "get_prop ev' ''data'' = Inr d'"
          using set_data_get_data[OF ev' d l] .
        have "loop E ev' (increment i) = Some y"
          using run d l b item Inr Some d' ev' by simp
        from IH[OF this data' l' big inc] show ?thesis .
      qed
    qed
  qed
qed

lemma deserialize_loop_forever:
  assumes "deserialize_loop E ev i = Some y"
    and "get_prop ev ''data'' = Inr d" and "get_prop d ''length'' = Inr l"
    and "less_than E (2 ^ 53) l = Inr True" and "i \<le> 2 ^ 53"
  shows False
  using deserialize_loop_forever_all[OF assms(1)] assms(2-5) by blast

lemma serialize_loop_forever_all:
  assumes "serialize_loop E ev i = Some y"
  shows "\<forall>d l. get_prop ev ''data'' = Inr d \<longrightarrow> get_prop d ''length'' = Inr l \<longrightarrow>
                less_than E (2 ^ 53) l = Inr True \<longrightarrow> i \<le> 2 ^ 53 \<longrightarrow> (\<exists>e. y = Inl e)"
proof (rule serialize_loop.raw_induct
    [where P = "\<lambda>E ev i y. \<forall>d l. get_prop ev ''data'' = Inr d \<longrightarrow> get_prop d ''length'' = Inr l \<longrightarrow>
                less_than E (2 ^ 53) l = Inr True \<longrightarrow> i \<le> 2 ^ 53 \<longrightarrow> (\<exists>e. y = Inl e)",
     OF _ assms], goal_cases)
  case (1 loop E ev i y)
  note IH = 1(1)[rule_format] and run = 1(2)
  show ?case
  proof (intro allI impI)
    fix d l
    assume d: "get_prop ev ''data'' = Inr d" and l: "get_prop d ''length'' = Inr l"
      and big: "less_than E (2 ^ 53) l = Inr True" and i: "i \<le> 2 ^ 53"
    have b: "less_than E i l = Inr True" using less_than_mono[OF big i] .
    have inc: "increment i \<le> 2 ^ 53" using i by (rule increment_le)
    obtain item where item: "get_index d i = Inr item"
      using get_index_returns[OF l] by blast
    show "\<exists>e. y = Inl e"
    proof (cases "serialize_item E item")
      case (Inl e)
      then show ?thesis using run d l b item by auto
    next
      case (Inr q)
      show ?thesis
      proof (cases q)
        case None
        have "loop E ev (increment i) = Some y"
          using run d l b item Inr None by simp
        from IH[OF this d l big inc] show ?thesis .
      next
        case (Some x)
        have t: "truthy item" using Inr Some by (auto dest: serialize_item_truthy)
        have "has_stack item" using Inr Some by (auto dest: serialize_item_stack)
        then obtain d' where d': "set_index d i x = Inr d'"
          using set_index_returns[OF item] by blast
        obtain ev' where ev': "set_prop ev ''data'' d' = Inr ev'"
          using set_data_returns[OF d l] by blast
        have l': "get_prop d' ''length'' = Inr l"
          using set_index_length[OF d' item t] l by simp
        have data': "get_prop ev' ''data'' = Inr d'"
          using set_data_get_data[OF ev' d l] .
        have "loop E ev' (increment i) = Some y"
          using run d l b item Inr Some d' ev' by simp
        from IH[OF this data' l' big inc] show ?thesis .
      qed
    qed
  qed
qed

lemma serialize_loop_forever:
  assumes "serialize_loop E ev i = Some y"
    and "get_prop ev ''data'' = Inr d" and "get_prop d ''length'' = Inr l"
    and "less_than E (2 ^ 53) l = Inr True" and "i \<le> 2 ^ 53"
  shows "\<exists>e. y = Inl e"
  using serialize_loop_forever_all[OF assms(1)] assms(2-5) by blast

text \<open>So a loop that has returned on an array has met no more than 2^53 elements.\<close>

lemma array_bound:
  assumes "get_prop ev ''data'' = Inr (JArr xs)"
    and "serialize_loop E ev 0 = Some (Inr r) \<or> deserialize_loop E ev 0 = Some (Inr r)"
  shows "length xs \<le> 2 ^ 53"
proof (rule ccontr)
  assume "\<not> length xs \<le> 2 ^ 53"
  then have big: "less_than E (2 ^ 53) (JNum (int (length xs))) = Inr True"
    by (simp add: less_than_def)
  have l: "get_prop (JArr xs) ''length'' = Inr (JNum (int (length xs)))" by simp
  from assms(2) show False
  proof
    assume "serialize_loop E ev 0 = Some (Inr r)"
    from serialize_loop_forever[OF this assms(1) l big] show False by simp
  next
    assume "deserialize_loop E ev 0 = Some (Inr r)"
    from deserialize_loop_forever[OF this assms(1) l big] show False by simp
  qed
qed

lemma to_json_props_lookup:
  "to_json_props E ps = Inr js \<Longrightarrow> map_of ps k = Some v \<Longrightarrow> to_json E v = Inr (Some j) \<Longrightarrow>
   map_of js k = Some j"
proof (induction ps arbitrary: js)
  case Nil
  then show ?case by simp
next
  case (Cons p ps)
  obtain k' v' where p: "p = (k', v')" by (cases p)
  show ?case using Cons p
    by (auto split: sum.splits option.splits if_splits)
qed

lemma to_json_elems_map:
  "to_json_elems E xs = Inr js \<Longrightarrow>
   js = map (\<lambda>x. case to_json E x of Inr (Some j) \<Rightarrow> j | _ \<Rightarrow> Null) xs"
  by (induction xs arbitrary: js) (auto split: sum.splits option.splits)

lemma map_of_of_json: "map_of (map (map_prod id of_json) js) k = map_option of_json (map_of js k)"
  by (induction js) auto

lemma to_json_props_member:
  "to_json_props E ps = Inr js \<Longrightarrow> map_of ps k = Some v \<Longrightarrow> \<exists>j. to_json E v = Inr j"
proof (induction ps arbitrary: js)
  case Nil
  then show ?case by simp
next
  case (Cons p ps)
  obtain k' v' where p: "p = (k', v')" by (cases p)
  show ?case using Cons p
    by (auto split: sum.splits option.splits if_splits)
qed

lemma decode_encoded:
  assumes js: "to_json_props E ps = Inr js"
    and parse: "JSON_parse E (render (Obj js)) = Some (Obj js)"
    and st: "map_of ps ''startTime'' = Some (JDate (Some t))"
    and date: "newDate E (JStr (toISOString E t)) = Inr t'"
    and lv: "map_of ps ''level'' = Some (JObj lps lhs)"
    and name: "map_of lps ''levelStr'' = Some (JStr name)"
    and level: "toLevel E (JStr name) = Inr L"
    and data: "map_of ps ''data'' = Some (JArr xs)"
    and len: "length xs \<le> 2 ^ 53"
  shows "\<exists>qs. deserializeLoggingEvent E (JStr (render (Obj js))) = Some (JObj qs [])
          \<and> map_of qs ''startTime'' = Some (JDate t')
          \<and> map_of qs ''level'' = Some L
          \<and> map_of qs ''data'' = Some (JArr (map (\<lambda>x. unwrap (via_wire E x)) xs))
          \<and> (\<forall>k v j. k \<notin> {''startTime'', ''level'', ''data''} \<longrightarrow> map_of ps k = Some v \<longrightarrow>
                 to_json E v = Inr (Some j) \<longrightarrow> map_of qs k = Some (of_json j))"
proof -
  let ?qs0 = "map (map_prod id of_json) js"
  let ?qs1 = "upd ''startTime'' (JDate t') ?qs0"
  let ?qs2 = "upd ''level'' L ?qs1"
  let ?D = "JArr (map (\<lambda>x. unwrap (via_wire E x)) xs)"
  let ?qs = "upd ''data'' ?D ?qs2"
  have j_st: "map_of js ''startTime'' = Some (Str (toISOString E t))"
    using to_json_props_lookup[OF js st] by simp
  obtain lj where lj: "to_json E (JObj lps lhs) = Inr lj"
    using to_json_props_member[OF js lv] by blast
  then obtain ljs where ljs: "to_json_props E lps = Inr ljs" and lj': "lj = Some (Obj ljs)"
    by (auto split: sum.splits)
  have j_lv: "map_of js ''level'' = Some (Obj ljs)"
    using to_json_props_lookup[OF js lv] lj lj' by simp
  have j_name: "map_of ljs ''levelStr'' = Some (Str name)"
    using to_json_props_lookup[OF ljs name] by simp
  obtain dj where dj: "to_json E (JArr xs) = Inr dj"
    using to_json_props_member[OF js data] by blast
  then obtain djs where djs: "to_json_elems E xs = Inr djs" and dj': "dj = Some (Arr djs)"
    by (auto split: sum.splits)
  have j_data: "map_of js ''data'' = Some (Arr djs)"
    using to_json_props_lookup[OF js data] dj dj' by simp
  have djs_map: "map of_json djs = map (via_wire E) xs"
    using to_json_elems_map[OF djs] by (simp add: via_wire_def)
  have q_data: "map_of ?qs2 ''data'' = Some (JArr (map (via_wire E) xs))"
    using j_data djs_map by (simp add: map_of_upd_other map_of_of_json)
  have loop: "deserialize_loop E (JObj ?qs2 []) 0 = Some (Inr (JObj ?qs []))"
    using deserialize_loop_array[OF q_data, of E "[]" 0] len by (simp add: comp_def)
  have "deserialize_try E (JStr (render (Obj js))) = Some (Inr (JObj ?qs []))"
    using parse j_st date j_lv j_name level loop
    by (simp add: deserialize_try_def JSON_parse_value_def map_of_of_json map_of_upd_other)
  then have r: "deserializeLoggingEvent E (JStr (render (Obj js))) = Some (JObj ?qs [])"
    by (simp add: deserializeLoggingEvent_def)
  have "map_of ?qs ''startTime'' = Some (JDate t')"
    by (simp add: map_of_upd_other map_of_upd_same)
  moreover have "map_of ?qs ''level'' = Some L"
    by (simp add: map_of_upd_other map_of_upd_same)
  moreover have "map_of ?qs ''data'' = Some ?D"
    by (simp add: map_of_upd_same)
  moreover have "\<forall>k v j. k \<notin> {''startTime'', ''level'', ''data''} \<longrightarrow> map_of ps k = Some v \<longrightarrow>
                 to_json E v = Inr (Some j) \<longrightarrow> map_of ?qs k = Some (of_json j)"
    using to_json_props_lookup[OF js] by (simp add: map_of_upd_other map_of_of_json)
  ultimately show ?thesis using r by blast
qed


lemma no_stack_serialize_item: "\<not> has_stack x \<Longrightarrow> serialize_item E x = Inr None"
  by (cases x) (auto simp: has_stack_def serialize_item_def split: sum.splits option.splits)

lemma no_stack_unwrap: "\<not> has_stack x \<Longrightarrow> unwrap x = x"
  by (cases x) (auto simp: has_stack_def unwrap_def deserialize_item_def split: sum.splits option.splits)

lemma safe_via_wire: "serializer_safe E x \<Longrightarrow> via_wire E x = x"
  by (auto simp: serializer_safe_def via_wire_def split: sum.splits option.splits)

section \<open>Values without a BigInt\<close>

lemma to_json_total:
  "(no_bigint v \<longrightarrow> (\<exists>j. to_json E v = Inr j))"
  "(no_bigint_list xs \<longrightarrow> (\<exists>js. to_json_elems E xs = Inr js))"
  "(no_bigint_props ps \<longrightarrow> (\<exists>js. to_json_props E ps = Inr js))"
  by (induction E v and E xs and E ps rule: to_json_to_json_elems_to_json_props.induct) auto

lemma no_bigint_list_all: "no_bigint_list xs = (\<forall>x \<in> set xs. no_bigint x)"
  by (induction xs) auto

lemma no_bigint_lookup: "no_bigint_props ps \<Longrightarrow> map_of ps k = Some v \<Longrightarrow> no_bigint v"
  by (induction ps) (auto split: if_splits)

lemma no_bigint_upd: "no_bigint_props ps \<Longrightarrow> no_bigint v \<Longrightarrow> no_bigint_props (upd k v ps)"
  by (induction ps) auto

lemma no_bigint_get_prop: "no_bigint v \<Longrightarrow> get_prop v k = Inr st \<Longrightarrow> no_bigint st"
  by (cases v) (auto dest: no_bigint_lookup split: option.splits if_splits)

lemma no_bigint_serialize_item: "no_bigint x \<Longrightarrow> serialize_item E x \<noteq> Inl e"
  using to_json_total(1)[of x E]
  by (cases x) (auto simp: serialize_item_def JSON_stringify_def split: sum.splits option.splits)

lemma no_bigint_rewrap: "no_bigint x \<Longrightarrow> no_bigint (rewrap E x)"
  by (auto simp: rewrap_def serialize_item_def dest: no_bigint_get_prop split: sum.splits option.splits if_splits)

lemma no_bigint_list_update:
  "no_bigint_list xs \<Longrightarrow> no_bigint x \<Longrightarrow> no_bigint_list (xs[i := x])"
  using set_update_subset_insert[of xs i x] by (auto simp: no_bigint_list_all)

text \<open>
  On an array without a BigInt the loop of \<^verbatim>\<open>serializeLoggingEvent\<close> does not throw,
  however long the array.
\<close>

lemma serialize_loop_no_throw_all:
  assumes "serialize_loop E ev i = Some y"
  shows "\<forall>ps hs xs. ev = JObj ps hs \<longrightarrow> map_of ps ''data'' = Some (JArr xs) \<longrightarrow>
                no_bigint ev \<longrightarrow> (\<exists>r. y = Inr r)"
proof (rule serialize_loop.raw_induct
    [where P = "\<lambda>E ev i y. \<forall>ps hs xs. ev = JObj ps hs \<longrightarrow> map_of ps ''data'' = Some (JArr xs) \<longrightarrow>
                no_bigint ev \<longrightarrow> (\<exists>r. y = Inr r)",
     OF _ assms], goal_cases)
  case (1 loop E ev i y)
  note IH = 1(1)[rule_format] and run = 1(2)
  show ?case
  proof (intro allI impI)
    fix ps hs xs
    assume ev: "ev = JObj ps hs" and data: "map_of ps ''data'' = Some (JArr xs)"
      and free: "no_bigint ev"
    have xs: "no_bigint_list xs"
      using no_bigint_lookup[OF _ data] free ev by simp
    show "\<exists>r. y = Inr r"
    proof (cases "i < length xs")
      case False
      then show ?thesis using run ev data by (auto simp: less_than_def)
    next
      case True
      then have item: "no_bigint (xs ! i)" using xs by (simp add: no_bigint_list_all)
      show ?thesis
      proof (cases "serialize_item E (xs ! i)")
        case (Inl e)
        then show ?thesis using item by (simp add: no_bigint_serialize_item)
      next
        case (Inr q)
        show ?thesis
        proof (cases q)
          case None
          have "loop E ev (increment i) = Some y"
            using run ev data True Inr None by (simp add: less_than_def)
          from IH[OF this ev data free] show ?thesis .
        next
          case (Some x)
          let ?ps = "upd ''data'' (JArr (xs[i := x])) ps"
          have "x = rewrap E (xs ! i)" using Inr Some by (simp add: rewrap_def)
          then have "no_bigint x" using item by (simp add: no_bigint_rewrap)
          then have free': "no_bigint (JObj ?ps hs)"
            using free ev xs by (simp add: no_bigint_upd no_bigint_list_update)
          have data': "map_of ?ps ''data'' = Some (JArr (xs[i := x]))"
            by (simp add: map_of_upd_same)
          have "loop E (JObj ?ps hs) (increment i) = Some y"
            using run ev data True Inr Some by (simp add: less_than_def)
          from IH[OF this refl data' free'] show ?thesis .
        qed
      qed
    qed
  qed
qed

lemma serialize_loop_no_throw:
  assumes "map_of ps ''data'' = Some (JArr xs)" and "no_bigint (JObj ps hs)"
  shows "serialize_loop E (JObj ps hs) i \<noteq> Some (Inl e)"
  using serialize_loop_no_throw_all[of E "JObj ps hs" i "Inl e"] assms by auto

section \<open>The shape of a decoded event\<close>

lemma deserialize_loop_object_all:
  assumes "deserialize_loop E ev i = Some y"
  shows "\<forall>ps r. ev = JObj ps [] \<longrightarrow> y = Inr r \<longrightarrow> (\<exists>ps'. r = JObj ps' [])"
proof (rule deserialize_loop.raw_induct
    [where P = "\<lambda>E ev i y. \<forall>ps r. ev = JObj ps [] \<longrightarrow> y = Inr r \<longrightarrow> (\<exists>ps'. r = JObj ps' [])",
     OF _ assms], goal_cases)
  case (1 loop E ev i y)
  note IH = 1(1)[rule_format] and run = 1(2)
  show ?case
  proof (intro allI impI)
    fix ps r
    assume ev: "ev = JObj ps []" and y: "y = Inr r"
    obtain d where d: "get_prop ev ''data'' = Inr d"
      using run y by (auto split: sum.splits)
    obtain l where l: "get_prop d ''length'' = Inr l"
      using run y d by (auto split: sum.splits)
    obtain b where b: "less_than E i l = Inr b"
      using run y d l by (auto split: sum.splits)
    show "\<exists>ps'. r = JObj ps' []"
    proof (cases b)
      case False
      then have "r = ev" using run y d l b by simp
      then show ?thesis using ev by simp
    next
      case True
      obtain item where item: "get_index d i = Inr item"
        using run y d l b True by (auto split: sum.splits)
      obtain q where q: "deserialize_item item = Inr q"
        using run y d l b True item by (auto split: sum.splits)
      show ?thesis
      proof (cases q)
        case None
        have "loop E ev (increment i) = Some y"
          using run d l b True item q None by simp
        from IH[OF this ev y] show ?thesis .
      next
        case (Some st)
        obtain d' where d': "set_index d i st = Inr d'"
          using run y d l b True item q Some by (auto split: sum.splits)
        have s: "set_prop ev ''data'' d' = Inr (JObj (upd ''data'' d' ps) [])"
          using ev by simp
        have "loop E (JObj (upd ''data'' d' ps) []) (increment i) = Some y"
          using run d l b True item q Some d' s by simp
        from IH[OF this refl y] show ?thesis .
      qed
    qed
  qed
qed

lemma deserialize_loop_object:
  assumes "deserialize_loop E ev i = Some y" and "ev = JObj ps []" and "y = Inr r"
  shows "\<exists>ps'. r = JObj ps' []"
  using deserialize_loop_object_all[OF assms(1)] assms(2,3) by blast

lemma deserialize_object:
  assumes "deserializeLoggingEvent E x = Some ev"
  shows "\<exists>ps. ev = JObj ps []"
proof (cases "deserialize_try E x")
  case None
  then show ?thesis using assms by (simp add: deserializeLoggingEvent_def)
next
  case (Some y)
  show ?thesis
  proof (cases y)
    case (Inl e)
    then show ?thesis using assms Some by (auto simp: deserializeLoggingEvent_def fallback_def)
  next
    case (Inr r)
    then have tr: "deserialize_try E x = Some (Inr r)" using Some by simp
    then obtain j t' ev1 lv ls lv' ev2 where j: "JSON_parse_value E x = Inr j"
      and ev1: "set_prop (of_json j) ''startTime'' (JDate t') = Inr ev1"
      and lv: "get_prop ev1 ''level'' = Inr lv" and ls: "get_prop lv ''levelStr'' = Inr ls"
      and ev2: "set_prop ev1 ''level'' lv' = Inr ev2"
      and loop: "deserialize_loop E ev2 0 = Some (Inr r)"
      by (auto simp: deserialize_try_def split: sum.splits)
    have "\<exists>ps. ev1 = JObj ps []"
      using ev1 lv ls by (cases j) auto
    then obtain ps where "ev2 = JObj ps []" using ev2 by auto
    from deserialize_loop_object[OF loop this refl] show ?thesis
      using assms tr by (simp add: deserializeLoggingEvent_def)
  qed
qed

section \<open>What \<^verbatim>\<open>serializeLoggingEvent\<close> returns\<close>

lemma serialize_loop_object_all:
  assumes "serialize_loop E ev i = Some y"
  shows "\<forall>r. y = Inr r \<longrightarrow> (\<exists>ps hs. r = JObj ps hs)"
proof (rule serialize_loop.raw_induct
    [where P = "\<lambda>E ev i y. \<forall>r. y = Inr r \<longrightarrow> (\<exists>ps hs. r = JObj ps hs)",
     OF _ assms], goal_cases)
  case (1 loop E ev i y)
  note IH = 1(1)[rule_format] and run = 1(2)
  show ?case
  proof (intro allI impI)
    fix r
    assume y: "y = Inr r"
    obtain d where d: "get_prop ev ''data'' = Inr d"
      using run y by (auto split: sum.splits)
    obtain l where l: "get_prop d ''length'' = Inr l"
      using run y d by (auto split: sum.splits)
    obtain b where b: "less_than E i l = Inr b"
      using run y d l by (auto split: sum.splits)
    show "\<exists>ps hs. r = JObj ps hs"
    proof (cases b)
      case False
      then have "r = ev" using run y d l b by simp
      moreover have "\<exists>ps hs. ev = JObj ps hs" using d l by (cases ev) (auto split: if_splits)
      ultimately show ?thesis by simp
    next
      case True
      obtain item where item: "get_index d i = Inr item"
        using run y d l b True by (auto split: sum.splits)
      obtain q where q: "serialize_item E item = Inr q"
        using run y d l b True item by (auto split: sum.splits)
      show ?thesis
      proof (cases q)
        case None
        have "loop E ev (increment i) = Some y"
          using run d l b True item q None by simp
        from IH[OF this y] show ?thesis .
      next
        case (Some x)
        obtain d' where d': "set_index d i x = Inr d'"
          using run y d l b True item q Some by (auto split: sum.splits)
        obtain ev' where s: "set_prop ev ''data'' d' = Inr ev'"
          using run y d l b True item q Some d' by (auto split: sum.splits)
        have "loop E ev' (increment i) = Some y"
          using run d l b True item q Some d' s by simp
        from IH[OF this y] show ?thesis .
      qed
    qed
  qed
qed

lemma serialize_loop_object:
  assumes "serialize_loop E ev i = Some y" and "y = Inr r"
  shows "\<exists>ps hs. r = JObj ps hs"
  using serialize_loop_object_all[OF assms(1)] assms(2) by blast

lemma serialize_text:
  assumes "serializeLoggingEvent E ev = Some (Inr (t, ev'))"
  shows "\<exists>text. t = Some text"
proof -
  obtain r where r: "serialize_loop E ev 0 = Some (Inr r)" and s: "JSON_stringify E r = Inr t"
    using assms by (auto simp: serializeLoggingEvent_def split: option.splits sum.splits)
  obtain ps hs where "r = JObj ps hs" using serialize_loop_object[OF r refl] by blast
  then show ?thesis using s by (auto simp: JSON_stringify_def split: sum.splits)
qed

section \<open>Loops that never end\<close>

lemma deserialize_loop_never_returns:
  assumes "get_prop ev ''data'' = Inr d" and "get_prop d ''length'' = Inr l"
    and "less_than E (2 ^ 53) l = Inr True"
  shows "deserialize_loop E ev 0 = None"
proof (cases "deserialize_loop E ev 0")
  case (Some y)
  from deserialize_loop_forever[OF this assms] show ?thesis by simp
qed simp

text \<open>
  The text \<^verbatim>\<open>{"level":{"levelStr":"INFO"},"data":{"length":9007199254740994}}\<close> makes
  \<^verbatim>\<open>deserializeLoggingEvent\<close> run for ever on the reference runtime.
\<close>

lemma deserialize_never_returns:
  "deserializeLoggingEvent node
     (JStr ''{\"level\":{\"levelStr\":\"INFO\"},\"data\":{\"length\":9007199254740994}}'') = None"
proof -
  let ?d = "JObj [(''length'', JNum 9007199254740994)] []"
  let ?ev = "JObj [(''level'', Level 20000 ''INFO''), (''data'', ?d), (''startTime'', JDate None)] []"
  have h1: "parse ''{\"level\":{\"levelStr\":\"INFO\"},\"data\":{\"length\":9007199254740994}}'' =
      Some (Obj [(''level'', Obj [(''levelStr'', Str ''INFO'')]),
                 (''data'', Obj [(''length'', Num 9007199254740994)])])"
    by (simp add: run_parse)
  have "deserialize_loop node ?ev 0 = None"
    by (rule deserialize_loop_never_returns[of _ ?d "JNum 9007199254740994"])
       (simp_all add: less_than_def)
  then have "deserialize_try node
     (JStr ''{\"level\":{\"levelStr\":\"INFO\"},\"data\":{\"length\":9007199254740994}}'') = None"
    unfolding deserialize_try_def JSON_parse_value_def
    by (simp add: h1 node_simps node_newDate_def node_toLevel_def levels_def)
  then show ?thesis by (simp add: deserializeLoggingEvent_def)
qed

text \<open>
  An event whose \<^verbatim>\<open>data\<close> is the object \<^verbatim>\<open>{length: n}\<close> with \<open>n\<close> above 2^53 makes the
  loop of \<^verbatim>\<open>serializeLoggingEvent\<close> run for ever: every element read is undefined, so
  nothing is written and nothing throws.
\<close>

lemma serialize_loop_forever_undefined_all:
  assumes "serialize_loop E ev i = Some y"
  shows "\<forall>n. get_prop ev ''data'' = Inr (JObj [(''length'', JNum n)] []) \<longrightarrow> 2 ^ 53 < n \<longrightarrow>
                i \<le> 2 ^ 53 \<longrightarrow> False"
proof (rule serialize_loop.raw_induct
    [where P = "\<lambda>E ev i y. \<forall>n. get_prop ev ''data'' = Inr (JObj [(''length'', JNum n)] []) \<longrightarrow> 2 ^ 53 < n \<longrightarrow>
                i \<le> 2 ^ 53 \<longrightarrow> False",
     OF _ assms], goal_cases)
  case (1 loop E ev i y)
  note IH = 1(1)[rule_format] and run = 1(2)
  show ?case
  proof (intro allI impI)
    fix n :: int
    assume d: "get_prop ev ''data'' = Inr (JObj [(''length'', JNum n)] [])"
      and n: "2 ^ 53 < n" and i: "i \<le> 2 ^ 53"
    have "int i \<le> int (2 ^ 53)" using i by (simp only: of_nat_le_iff)
    then have b: "less_than E i (JNum n) = Inr True" using n by (simp add: less_than_def)
    have inc: "increment i \<le> 2 ^ 53" using i by (rule increment_le)
    have item: "get_index (JObj [(''length'', JNum n)] []) i = Inr JUndefined"
      using digits_ne_length[of i] by simp
    have "loop E ev (increment i) = Some y"
      using run d b item by (simp add: serialize_item_def)
    from IH[OF this d n inc] show False .
  qed
qed

lemma serialize_loop_forever_undefined:
  assumes "serialize_loop E ev i = Some y"
    and "get_prop ev ''data'' = Inr (JObj [(''length'', JNum n)] [])"
    and "2 ^ 53 < n" and "i \<le> 2 ^ 53"
  shows False
  using serialize_loop_forever_undefined_all[OF assms(1)] assms(2-4) by blast

lemma serialize_never_returns:
  assumes "get_prop ev ''data'' = Inr (JObj [(''length'', JNum n)] [])" and "2 ^ 53 < n"
  shows "serializeLoggingEvent E ev = None"
proof (cases "serialize_loop E ev 0")
  case (Some y)
  from serialize_loop_forever_undefined[OF this assms] show ?thesis by simp
qed (simp add: serializeLoggingEvent_def)

section \<open>Configured destinations\<close>

lemma make_appenders_length: "make_appenders maker options ds = Inr fs \<Longrightarrow> length fs = length ds"
  by (induction ds arbitrary: fs) (auto split: sum.splits)

lemma configure_lengths:
  "configure E maker config options = Inr (config', c) \<Longrightarrow> isMaster E \<Longrightarrow> appenders config = Some ds \<Longrightarrow>
   \<exists>fs. actualAppenders config' = Some fs \<and> length fs = length ds \<and> appenders config' = Some ds"
  by (auto simp: configure_def dest: make_appenders_length split: sum.splits)

section \<open>Recording destinations\<close>

lemma get_prop_defined: "d \<noteq> JUndefined \<Longrightarrow> d \<noteq> JNull \<Longrightarrow> \<exists>v. get_prop d k = Inr v"
  by (cases d) (auto split: option.splits)

lemma invoke_recorder: "i < n \<Longrightarrow> invoke (map recorder [0 ..< n]) i ev w = Inr (w @ [(i, ev)])"
  by (simp add: invoke_def recorder_def)

lemma master_loop_recorders:
  assumes ds: "appenders config = Some ds"
    and c: "get_prop ev ''categoryName'' = Inr c"
    and "is": "\<forall>i \<in> set is. i < n \<and> i < length ds \<and> ds ! i \<noteq> JUndefined \<and> ds ! i \<noteq> JNull"
  shows "master_loop config (map recorder [0 ..< n]) ev is w =
           Inr (w @ map (\<lambda>i. (i, ev)) (filter (\<lambda>i. selected (ds ! i) c) is))"
  using "is"
proof (induction "is" arbitrary: w)
  case Nil
  then show ?case by simp
next
  case (Cons i "is")
  then obtain cat where cat: "get_prop (ds ! i) ''category'' = Inr cat"
    using get_prop_defined[of "ds ! i" "''category''"] by auto
  have i: "i < n" "i < length ds" using Cons.prems by auto
  have IH: "\<And>w. master_loop config (map recorder [0 ..< n]) ev is w =
           Inr (w @ map (\<lambda>i. (i, ev)) (filter (\<lambda>i. selected (ds ! i) c) is))"
    using Cons by simp
  show ?case using ds c cat i
    by (simp add: IH selected_def invoke_recorder)
qed

section \<open>Decoding\<close>

text \<open>
  C3. When \<^verbatim>\<open>JSON.parse\<close> rejects the input string, \<^verbatim>\<open>deserializeLoggingEvent\<close> returns
  (it has no throwing outcome: every throw of the \<^verbatim>\<open>try\<close> block is caught) an event
  with category \<^verbatim>\<open>log4js\<close>, level ERROR, the current time as start time, and as data the
  notice \<^verbatim>\<open>Unable to parse log:\<close> followed by the input string itself.
\<close>

theorem deserialize_unparseable:
  assumes "JSON_parse E s = None"
  shows "deserializeLoggingEvent E (JStr s) =
           Some (JObj [(''startTime'', JDate (Some (now E))),
                       (''categoryName'', JStr ''log4js''),
                       (''level'', ERROR E),
                       (''data'', JArr [JStr ''Unable to parse log:'', JStr s])] [])"
  using assms
  by (simp add: deserializeLoggingEvent_def deserialize_try_def JSON_parse_value_def fallback_def)

theorem deserialize_unparseable_witness:
  "JSON_parse node ''not valid'' = None \<and>
   deserializeLoggingEvent node (JStr ''not valid'') =
     Some (JObj [(''startTime'', JDate (Some 1767225600000)),
                 (''categoryName'', JStr ''log4js''),
                 (''level'', Level 40000 ''ERROR''),
                 (''data'', JArr [JStr ''Unable to parse log:'', JStr ''not valid''])] [])"
proof -
  have h: "JSON_parse node ''not valid'' = None"
    by (simp add: node_def parse_def Let_def parse_number_def is_ws_def is_digit_def)
  show ?thesis
    using deserialize_unparseable [OF h] h by (simp add: node_def)
qed







text \<open>
  C10, as stated, fails: a text that parses to an object which is no logging event
  need not give the fallback event. Here \<^verbatim>\<open>data\<close> is the number 5: its \<^verbatim>\<open>length\<close> is
  undefined, the loop does not run, nothing throws, and the parsed object is returned.
\<close>

theorem deserialize_keeps_misshapen_object:
  "deserializeLoggingEvent node (JStr ''{\"level\":{\"levelStr\":\"INFO\"},\"data\":5}'') =
     Some (JObj [(''level'', Level 20000 ''INFO''), (''data'', JNum 5), (''startTime'', JDate None)] [])
   \<and> deserializeLoggingEvent node (JStr ''{\"level\":{\"levelStr\":\"INFO\"},\"data\":5}'')
       \<noteq> Some (fallback node (JStr ''{\"level\":{\"levelStr\":\"INFO\"},\"data\":5}''))"
proof -
  have h1: "parse ''{\"level\":{\"levelStr\":\"INFO\"},\"data\":5}'' =
      Some (Obj [(''level'', Obj [(''levelStr'', Str ''INFO'')]), (''data'', Num 5)])"
    by (simp add: run_parse)
  have "deserialize_try node (JStr ''{\"level\":{\"levelStr\":\"INFO\"},\"data\":5}'') =
     Some (Inr (JObj [(''level'', Level 20000 ''INFO''), (''data'', JNum 5), (''startTime'', JDate None)] []))"
    unfolding deserialize_try_def JSON_parse_value_def
    by (simp add: h1 deserialize_loop.simps less_than_def
          node_simps node_newDate_def node_toLevel_def node_ToNumber_def levels_def)
  then show ?thesis by (simp add: deserializeLoggingEvent_def fallback_def)
qed

text \<open>
  C10, amended. \<^verbatim>\<open>deserializeLoggingEvent\<close> returns the fallback event, and so neither
  throws nor runs for ever, whenever \<^verbatim>\<open>JSON.parse\<close> rejects the string or gives a value
  that is not an object (null, a boolean, a number, a string, an array) or an object
  whose \<^verbatim>\<open>level\<close> or \<^verbatim>\<open>data\<close> is missing or null. (Of the other objects some are
  returned as reconstructed, as above, and some make the loop run for ever:
  \<open>deserialize_never_returns\<close>.)
\<close>

theorem deserialize_fallback:
  assumes "case JSON_parse E s of
             None \<Rightarrow> True
           | Some (Obj js) \<Rightarrow> map_of js ''level'' \<in> {None, Some Null} \<or> map_of js ''data'' \<in> {None, Some Null}
           | Some j \<Rightarrow> True"
  shows "deserializeLoggingEvent E (JStr s) = Some (fallback E (JStr s))"
proof (cases "JSON_parse E s")
  case None
  then show ?thesis
    by (simp add: deserializeLoggingEvent_def deserialize_try_def JSON_parse_value_def)
next
  case (Some j)
  have "\<exists>e. deserialize_try E (JStr s) = Some (Inl e)"
  proof (cases j)
    case (Obj js)
    let ?qs0 = "map (map_prod id of_json) js"
    from assms Some Obj consider
      (level) "map_of js ''level'' \<in> {None, Some Null}" | (data) "map_of js ''data'' \<in> {None, Some Null}"
      by auto
    then show ?thesis
    proof cases
      case level
      then show ?thesis using Some Obj
        by (auto simp: deserialize_try_def JSON_parse_value_def map_of_upd_other map_of_of_json
            split: sum.splits option.splits)
    next
      case data
      have "\<And>L t'. \<exists>e. deserialize_loop E (JObj (upd ''level'' L (upd ''startTime'' (JDate t') ?qs0)) []) 0 = Some (Inl e)"
        using data
        by (subst deserialize_loop.simps) (auto simp: map_of_upd_other map_of_of_json)
      then show ?thesis using Some Obj
        by (auto simp: deserialize_try_def JSON_parse_value_def split: sum.splits option.splits)
    qed
  qed (use Some in \<open>auto simp: deserialize_try_def JSON_parse_value_def split: sum.splits\<close>)
  then show ?thesis by (auto simp: deserializeLoggingEvent_def)
qed


theorem deserialize_fallback_witness:
  "deserializeLoggingEvent node (JStr ''{\"data\":[]}'') = Some (fallback node (JStr ''{\"data\":[]}''))"
proof -
  have h1: "parse ''{\"data\":[]}'' = Some (Obj [(''data'', Arr [])])"
    by (simp add: run_parse)
  show ?thesis by (rule deserialize_fallback) (simp add: h1 node_simps)
qed


section \<open>Encoding and decoding\<close>

text \<open>
  C1. Take an event whose \<^verbatim>\<open>data\<close> is an array the counter of the loops can traverse
  (of at most 2^53 elements; a JavaScript array has fewer than 2^32) holding only
  values the serializer is safe on, whose other properties \<^verbatim>\<open>JSON.stringify\<close> prints, and
  a runtime that reads this event's text and the ISO form of its start time back and
  whose \<^verbatim>\<open>toLevel\<close> finds a level of the event's level name. Then
  \<^verbatim>\<open>serializeLoggingEvent\<close> returns the text of the event unchanged, and
  \<^verbatim>\<open>deserializeLoggingEvent\<close> of that text returns an event with the same category
  name, the same instant as start time, a level of the same name, and the same \<^verbatim>\<open>data\<close>,
  element by element. (The reference runtime reads back every text it prints of a value
  whose objects repeat no property: \<open>node_reads_back\<close>.)
\<close>

theorem roundtrip:
  assumes cat: "map_of ps ''categoryName'' = Some (JStr c)"
    and st: "map_of ps ''startTime'' = Some (JDate (Some t))"
    and lv: "map_of ps ''level'' = Some (JObj lps lhs)"
    and name: "map_of lps ''levelStr'' = Some (JStr name)"
    and data: "map_of ps ''data'' = Some (JArr xs)"
    and len: "length xs \<le> 2 ^ 53"
    and safe: "\<forall>x \<in> set xs. serializer_safe E x"
    and str: "to_json E (JObj ps hs) = Inr (Some j)"
    and parse: "JSON_parse E (render j) = Some j"
    and date: "newDate E (JStr (toISOString E t)) = Inr (Some t)"
    and level: "toLevel E (JStr name) = Inr L"
    and lname: "get_prop L ''levelStr'' = Inr (JStr name)"
  shows "serializeLoggingEvent E (JObj ps hs) = Some (Inr (Some (render j), JObj ps hs))
       \<and> (\<exists>r. deserializeLoggingEvent E (JStr (render j)) = Some r
            \<and> get_prop r ''categoryName'' = Inr (JStr c)
            \<and> get_prop r ''startTime'' = Inr (JDate (Some t))
            \<and> (\<exists>L'. get_prop r ''level'' = Inr L' \<and> get_prop L' ''levelStr'' = Inr (JStr name))
            \<and> get_prop r ''data'' = Inr (JArr xs))"
proof -
  have nothrow: "\<forall>x \<in> set (drop 0 xs). \<forall>e. serialize_item E x \<noteq> Inl e"
    using safe by (simp add: serializer_safe_def no_stack_serialize_item)
  obtain r where r: "serialize_loop E (JObj ps hs) 0 = Some (Inr r)"
    using serialize_loop_array_total[OF data len nothrow] by blast
  have "map (rewrap E) xs = xs"
    using safe by (simp add: map_idI rewrap_def serializer_safe_def no_stack_serialize_item)
  then have r': "r = JObj ps hs"
    using serialize_loop_array[OF data len r] data by (simp add: upd_same)
  obtain js where js: "to_json_props E ps = Inr js" and j: "j = Obj js"
    using str by (auto split: sum.splits)
  have ser: "serializeLoggingEvent E (JObj ps hs) = Some (Inr (Some (render j), JObj ps hs))"
    using r r' str by (simp add: serializeLoggingEvent_def JSON_stringify_def)
  obtain qs where d: "deserializeLoggingEvent E (JStr (render (Obj js))) = Some (JObj qs [])"
    and q_st: "map_of qs ''startTime'' = Some (JDate (Some t))"
    and q_lv: "map_of qs ''level'' = Some L"
    and q_data: "map_of qs ''data'' = Some (JArr (map (\<lambda>x. unwrap (via_wire E x)) xs))"
    and q_other: "\<forall>k v j. k \<notin> {''startTime'', ''level'', ''data''} \<longrightarrow> map_of ps k = Some v \<longrightarrow>
                 to_json E v = Inr (Some j) \<longrightarrow> map_of qs k = Some (of_json j)"
    using decode_encoded[OF js parse[unfolded j] st date lv name level data len] by blast
  have "map (\<lambda>x. unwrap (via_wire E x)) xs = xs"
    using safe by (simp add: map_idI safe_via_wire no_stack_unwrap serializer_safe_def)
  then have q_data': "map_of qs ''data'' = Some (JArr xs)" using q_data by simp
  have q_cat: "map_of qs ''categoryName'' = Some (JStr c)"
    using q_other cat by force
  show ?thesis using ser d q_st q_lv q_data' q_cat lname by (simp add: j)
qed


theorem roundtrip_witness:
  "serializeLoggingEvent node
     (JObj [(''startTime'', JDate (Some 1709210096789)), (''categoryName'', JStr ''app''),
            (''data'', JArr [JStr ''hello'', JNum 42, JNull, JObj [(''ok'', JBool True)] []]),
            (''level'', Level 20000 ''INFO'')] [])
   = Some (Inr (Some ''{\"startTime\":\"2024-02-29T12:34:56.789Z\",\"categoryName\":\"app\",\"data\":[\"hello\",42,null,{\"ok\":true}],\"level\":{\"level\":20000,\"levelStr\":\"INFO\"}}'',
          (JObj [(''startTime'', JDate (Some 1709210096789)), (''categoryName'', JStr ''app''),
            (''data'', JArr [JStr ''hello'', JNum 42, JNull, JObj [(''ok'', JBool True)] []]),
            (''level'', Level 20000 ''INFO'')] [])))
   \<and> (\<exists>r. deserializeLoggingEvent node (JStr
       ''{\"startTime\":\"2024-02-29T12:34:56.789Z\",\"categoryName\":\"app\",\"data\":[\"hello\",42,null,{\"ok\":true}],\"level\":{\"level\":20000,\"levelStr\":\"INFO\"}}'') = Some r
      \<and> get_prop r ''categoryName'' = Inr (JStr ''app'')
      \<and> get_prop r ''startTime'' = Inr (JDate (Some 1709210096789))
      \<and> (\<exists>L'. get_prop r ''level'' = Inr L' \<and> get_prop L' ''levelStr'' = Inr (JStr ''INFO''))
      \<and> get_prop r ''data'' = Inr (JArr [JStr ''hello'', JNum 42, JNull, JObj [(''ok'', JBool True)] []]))"
proof -
  let ?xs = "[JStr ''hello'', JNum 42, JNull, JObj [(''ok'', JBool True)] []]"
  let ?ps = "[(''startTime'', JDate (Some 1709210096789)), (''categoryName'', JStr ''app''),
            (''data'', JArr ?xs), (''level'', Level 20000 ''INFO'')]"
  let ?j = "Obj [(''startTime'', Str ''2024-02-29T12:34:56.789Z''), (''categoryName'', Str ''app''),
            (''data'', Arr [Str ''hello'', Num 42, Null, Obj [(''ok'', Bool True)]]),
            (''level'', Obj [(''level'', Num 20000), (''levelStr'', Str ''INFO'')])]"
  have civil: "civil_from_days 19782 = (2024, 2, 29)" by code_simp
  have iso: "iso_of_time 1709210096789 = ''2024-02-29T12:34:56.789Z''"
    by (simp add: iso_of_time_def civil pad_def digits_small digits_large)
  have rendered: "render ?j = ''{\"startTime\":\"2024-02-29T12:34:56.789Z\",\"categoryName\":\"app\",\"data\":[\"hello\",42,null,{\"ok\":true}],\"level\":{\"level\":20000,\"levelStr\":\"INFO\"}}''"
    by (simp add: quote_def quote_char_def show_int_def digits_small digits_large)
  have h1: "map_of ?ps ''categoryName'' = Some (JStr ''app'')" by simp
  have h2: "map_of ?ps ''startTime'' = Some (JDate (Some 1709210096789))" by simp
  have h3: "map_of ?ps ''level'' = Some (JObj [(''level'', JNum 20000), (''levelStr'', JStr ''INFO'')] [])"
    by (simp add: Level_def)
  have h4: "map_of [(''level'', JNum 20000), (''levelStr'', JStr ''INFO'')] ''levelStr'' = Some (JStr ''INFO'')"
    by simp
  have h5: "map_of ?ps ''data'' = Some (JArr ?xs)" by simp
  have h5': "length ?xs \<le> 2 ^ 53" by simp
  have h6: "\<forall>x \<in> set ?xs. serializer_safe node x"
    by (simp add: serializer_safe_def has_stack_def)
  have h7: "to_json node (JObj ?ps []) = Inr (Some ?j)"
    by (simp add: iso Level_def node_def)
  have h8: "JSON_parse node (render ?j) = Some ?j"
    unfolding rendered
    by (simp add: node_def parse_def Let_def parse_number_def is_ws_def is_digit_def
        read_nat_def digit_val_def)
  have reread: "time_of_iso ''2024-02-29T12:34:56.789Z'' = Some 1709210096789"
    by (simp add: time_of_iso_def time_of_fields_def days_from_civil_def Let_def read_nat_def
        digit_val_def is_digit_def)
  have h9: "newDate node (JStr (toISOString node 1709210096789)) = Inr (Some 1709210096789)"
    by (simp add: iso reread node_def node_newDate_def)
  have h10: "toLevel node (JStr ''INFO'') = Inr (Level 20000 ''INFO'')" by code_simp
  have h11: "get_prop (Level 20000 ''INFO'') ''levelStr'' = Inr (JStr ''INFO'')"
    by (simp add: Level_def)
  show ?thesis
    by (rule roundtrip [OF h1 h2 h3 h4 h5 h5' h6 h7 h8 h9 h10 h11, unfolded rendered])
qed





text \<open>
  C5, as stated, fails: \<^verbatim>\<open>serializeLoggingEvent\<close> has no \<^verbatim>\<open>try\<close>, and
  \<^verbatim>\<open>JSON.stringify\<close> throws a TypeError on a BigInt (as it does on an object that
  contains itself). An event logged with a BigInt argument makes it throw.
\<close>

theorem serialize_throws_on_bigint:
  "serializeLoggingEvent node
     (JObj [(''startTime'', JDate (Some 0)), (''categoryName'', JStr ''app''),
            (''data'', JArr [JStr ''count'', JBigInt 1]), (''level'', Level 20000 ''INFO'')] [])
   = Some (Inl TypeError)"
  by (simp add: serializeLoggingEvent_def serialize_loop.simps increment_def less_than_def
      serialize_item_def JSON_stringify_def)

text \<open>
  C5, amended. On an event whose \<^verbatim>\<open>data\<close> is an array and which holds no BigInt,
  \<^verbatim>\<open>serializeLoggingEvent\<close> does not throw. When the counter of the loop can traverse
  the array (it has at most 2^53 elements; a JavaScript array has fewer than 2^32),
  \<^verbatim>\<open>serializeLoggingEvent\<close> returns a text, and leaves the event with each element of
  \<^verbatim>\<open>data\<close> that passed the test of the loop replaced. What JSON cannot represent and
  \<^verbatim>\<open>JSON.stringify\<close> does not throw on is lost as \<^verbatim>\<open>to_json\<close> has it: undefined becomes
  null in an array and is left out of an object.
\<close>

theorem serialize_returns:
  assumes data: "map_of ps ''data'' = Some (JArr xs)"
    and free: "no_bigint (JObj ps hs)"
  shows "(\<forall>e. serializeLoggingEvent E (JObj ps hs) \<noteq> Some (Inl e))
       \<and> (length xs \<le> 2 ^ 53 \<longrightarrow>
            (\<exists>text. serializeLoggingEvent E (JObj ps hs) =
               Some (Inr (Some text, JObj (upd ''data'' (JArr (map (rewrap E) xs)) ps) hs))))"
proof (intro conjI allI impI)
  fix e
  show "serializeLoggingEvent E (JObj ps hs) \<noteq> Some (Inl e)"
  proof (cases "serialize_loop E (JObj ps hs) 0")
    case None
    then show ?thesis by (simp add: serializeLoggingEvent_def)
  next
    case (Some y)
    then obtain r where y: "y = Inr r"
      using serialize_loop_no_throw[OF data free, of E 0] by (cases y) auto
    have len: "length xs \<le> 2 ^ 53"
      by (rule array_bound[of "JObj ps hs" _ E r]) (use Some y data in simp_all)
    have r: "r = JObj (upd ''data'' (JArr (map (rewrap E) xs)) ps) hs"
      using serialize_loop_array[OF data len, of E hs 0 r] Some y by simp
    have xs: "\<forall>x \<in> set xs. no_bigint x"
      using no_bigint_lookup[OF _ data] free by (simp add: no_bigint_list_all)
    have "no_bigint r"
      unfolding r using free xs by (simp add: no_bigint_upd no_bigint_list_all no_bigint_rewrap)
    then obtain j where "to_json E r = Inr j" using to_json_total(1) by blast
    then show ?thesis using Some y by (simp add: serializeLoggingEvent_def JSON_stringify_def)
  qed
next
  assume len: "length xs \<le> 2 ^ 53"
  let ?ev = "JObj (upd ''data'' (JArr (map (rewrap E) xs)) ps) hs"
  have xs: "\<forall>x \<in> set xs. no_bigint x"
    using no_bigint_lookup[OF _ data] free by (simp add: no_bigint_list_all)
  then have "\<forall>x \<in> set (drop 0 xs). \<forall>e. serialize_item E x \<noteq> Inl e"
    by (simp add: no_bigint_serialize_item)
  then obtain r where r: "serialize_loop E (JObj ps hs) 0 = Some (Inr r)"
    using serialize_loop_array_total[OF data len] by blast
  have r': "r = ?ev" using serialize_loop_array[OF data len r] by simp
  have "no_bigint ?ev"
    using free xs by (simp add: no_bigint_upd no_bigint_list_all no_bigint_rewrap)
  then obtain j where "to_json E ?ev = Inr j" using to_json_total(1) by blast
  then obtain js where "to_json E ?ev = Inr (Some (Obj js))" by (auto split: sum.splits)
  then show "\<exists>text. serializeLoggingEvent E (JObj ps hs) = Some (Inr (Some text, ?ev))"
    using r r' by (simp add: serializeLoggingEvent_def JSON_stringify_def)
qed


theorem serialize_returns_witness:
  "(\<forall>e. serializeLoggingEvent node
      (JObj [(''categoryName'', JStr ''app''), (''data'', JArr [JUndefined, JStr ''x''])] []) \<noteq> Some (Inl e))
   \<and> (\<exists>text. serializeLoggingEvent node
      (JObj [(''categoryName'', JStr ''app''), (''data'', JArr [JUndefined, JStr ''x''])] []) =
    Some (Inr (Some text, JObj (upd ''data'' (JArr (map (rewrap node) [JUndefined, JStr ''x'']))
          [(''categoryName'', JStr ''app''), (''data'', JArr [JUndefined, JStr ''x''])]) [])))"
  using serialize_returns
    [of "[(''categoryName'', JStr ''app''), (''data'', JArr [JUndefined, JStr ''x''])]"
        "[JUndefined, JStr ''x'']" "[]" node]
  by simp


section \<open>Dispatching\<close>

text \<open>
  C4, as stated, fails: the test is \<^verbatim>\<open>!category || category === categoryName\<close>, so a
  filter that is set to the empty string counts as no filter. Here the destination's
  filter is the empty string, the event's category is \<^verbatim>\<open>A\<close>, and the destination is
  invoked.
\<close>

theorem dispatch_invokes_empty_filter:
  "masterAppender
     \<lparr> appenders = Some [JObj [(''type'', JStr ''file''), (''category'', JStr [])] []],
       actualAppenders = Some [recorder 0] \<rparr>
     (JObj [(''categoryName'', JStr ''A'')] []) []
   = Inr [(0, JObj [(''categoryName'', JStr ''A'')] [])]"
  by (simp add: masterAppender_def invoke_def recorder_def)


text \<open>
  C4, amended. With destinations that do not throw and a descriptor for each of them,
  \<^verbatim>\<open>masterAppender\<close> invokes the destinations in configuration order, each with the
  event itself, and it invokes destination \<open>i\<close> if and only if its category filter is
  falsy (unset, null, the empty string, 0, false) or strictly equal to the event's
  category name.
\<close>

theorem dispatch_by_category:
  assumes "appenders config = Some ds"
    and "actualAppenders config = Some (map recorder [0 ..< n])"
    and "n \<le> length ds"
    and "\<forall>d \<in> set ds. d \<noteq> JUndefined \<and> d \<noteq> JNull"
    and "get_prop ev ''categoryName'' = Inr c"
  shows "masterAppender config ev w =
           Inr (w @ map (\<lambda>i. (i, ev))
                      (filter (\<lambda>i. case get_prop (ds ! i) ''category'' of
                                      Inr category \<Rightarrow> \<not> truthy category \<or> strict_eq category c
                                    | Inl e \<Rightarrow> False) [0 ..< n]))"
proof -
  have "\<forall>i \<in> set [0 ..< n]. i < n \<and> i < length ds \<and> ds ! i \<noteq> JUndefined \<and> ds ! i \<noteq> JNull"
    using assms(3,4) by auto
  from master_loop_recorders[OF assms(1) assms(5) this, of w] show ?thesis
    using assms(2) by (simp add: masterAppender_def selected_def)
qed


theorem dispatch_by_category_witness:
  "masterAppender
     \<lparr> appenders = Some [JObj [(''category'', JStr ''A'')] [], JObj [(''type'', JStr ''file'')] []],
       actualAppenders = Some (map recorder [0 ..< 2]) \<rparr>
     (JObj [(''categoryName'', JStr ''B'')] []) []
   = Inr [(1, JObj [(''categoryName'', JStr ''B'')] [])]"
  using dispatch_by_category
    [of "\<lparr> appenders = Some [JObj [(''category'', JStr ''A'')] [], JObj [(''type'', JStr ''file'')] []],
            actualAppenders = Some (map recorder [0 ..< 2]) \<rparr>"
        "[JObj [(''category'', JStr ''A'')] [], JObj [(''type'', JStr ''file'')] []]" 2
        "JObj [(''categoryName'', JStr ''B'')] []" "JStr ''B''" "[]"]
  by (simp add: upt_rec)


text \<open>
  C8. With no \<^verbatim>\<open>actualAppenders\<close> in the configuration, or an empty array of them,
  \<^verbatim>\<open>masterAppender\<close> returns without a throw and leaves the world of the destinations as
  it was: nothing is invoked and nothing is kept.
\<close>

theorem pre_configuration_drop:
  assumes "actualAppenders config = None \<or> actualAppenders config = Some []"
  shows "masterAppender config ev w = Inr w"
  using assms by (auto simp: masterAppender_def)


theorem pre_configuration_drop_witness:
  "masterAppender \<lparr> appenders = None, actualAppenders = None \<rparr>
     (JObj [(''categoryName'', JStr ''A'')] []) (0 :: nat) = Inr 0"
  using pre_configuration_drop [of "\<lparr> appenders = None, actualAppenders = None \<rparr>"]
  by simp


text \<open>
  C7. For a message tagged \<^verbatim>\<open>::log-message\<close> from a worker, when
  \<^verbatim>\<open>deserializeLoggingEvent\<close> returns, what it returns is an object, and the listener
  passes it to \<^verbatim>\<open>masterAppender\<close> with \<^verbatim>\<open>pid\<close> set to the worker's pid and
  \<^verbatim>\<open>cluster\<close> set to the record of the master's own pid, the worker's pid and the
  worker's id; when \<^verbatim>\<open>deserializeLoggingEvent\<close> never returns, neither does the
  listener, and no event is passed on. In the master, the appender that
  \<^verbatim>\<open>createAppender\<close> returns passes a local event to \<^verbatim>\<open>masterAppender\<close> as it is, with
  nothing added.
\<close>

theorem provenance:
  assumes "get_prop message ''type'' = Inr (JStr ''::log-message'')"
    and "get_prop message ''event'' = Inr x"
  shows "(case deserializeLoggingEvent E x of
            None \<Rightarrow> on_message E config worker message w = None
          | Some decoded \<Rightarrow>
              \<exists>ps. decoded = JObj ps []
                \<and> on_message E config worker message w =
                    Some (masterAppender config
                      (JObj (upd ''cluster''
                               (JObj [(''master'', JNum (pid E)), (''worker'', JNum (process_pid worker)),
                                      (''workerId'', JNum (worker_id worker))] [])
                               (upd ''pid'' (JNum (process_pid worker)) ps)) []) w)
                \<and> get_prop (JObj (upd ''cluster''
                               (JObj [(''master'', JNum (pid E)), (''worker'', JNum (process_pid worker)),
                                      (''workerId'', JNum (worker_id worker))] [])
                               (upd ''pid'' (JNum (process_pid worker)) ps)) []) ''pid''
                    = Inr (JNum (process_pid worker))
                \<and> get_prop (JObj (upd ''cluster''
                               (JObj [(''master'', JNum (pid E)), (''worker'', JNum (process_pid worker)),
                                      (''workerId'', JNum (worker_id worker))] [])
                               (upd ''pid'' (JNum (process_pid worker)) ps)) []) ''cluster''
                    = Inr (JObj [(''master'', JNum (pid E)), (''worker'', JNum (process_pid worker)),
                                 (''workerId'', JNum (worker_id worker))] []))
      \<and> (isMaster E \<longrightarrow>
           listener (createAppender E config) = Some (on_message E config)
           \<and> appender (createAppender E config) ev (w, sent) =
               Some (masterAppender config ev w, sent))"
proof (cases "deserializeLoggingEvent E x")
  case None
  then show ?thesis using assms by (simp add: on_message_def createAppender_def)
next
  case (Some decoded)
  then obtain ps where ps: "decoded = JObj ps []"
    using deserialize_object by blast
  show ?thesis
    using assms Some ps
    by (simp add: on_message_def createAppender_def map_of_upd_same map_of_upd_other)
qed


theorem provenance_witness:
  "on_message node
     \<lparr> appenders = Some [JObj [(''type'', JStr ''file'')] []], actualAppenders = Some [recorder 0] \<rparr>
     \<lparr> process_pid = 4242, worker_id = 3 \<rparr>
     (JObj [(''type'', JStr ''::log-message''), (''event'', JStr ''not json'')] []) []
   = Some (Inr [(0, JObj [(''startTime'', JDate (Some 1767225600000)),
                    (''categoryName'', JStr ''log4js''),
                    (''level'', Level 40000 ''ERROR''),
                    (''data'', JArr [JStr ''Unable to parse log:'', JStr ''not json'']),
                    (''pid'', JNum 4242),
                    (''cluster'', JObj [(''master'', JNum 100), (''worker'', JNum 4242),
                                        (''workerId'', JNum 3)] [])] [])])
   \<and> on_message node
     \<lparr> appenders = Some [JObj [(''type'', JStr ''file'')] []], actualAppenders = Some [recorder 0] \<rparr>
     \<lparr> process_pid = 4242, worker_id = 3 \<rparr>
     (JObj [(''type'', JStr ''::log-message''),
            (''event'', JStr ''{\"level\":{\"levelStr\":\"INFO\"},\"data\":{\"length\":9007199254740994}}'')] []) []
   = None
   \<and> appender (createAppender node
         \<lparr> appenders = Some [JObj [(''type'', JStr ''file'')] []], actualAppenders = Some [recorder 0] \<rparr>)
       (JObj [(''categoryName'', JStr ''app'')] []) ([], [])
     = Some (Inr [(0, JObj [(''categoryName'', JStr ''app'')] [])], [])"
proof -
  let ?m = "JObj [(''type'', JStr ''::log-message''), (''event'', JStr ''not json'')] []"
  let ?big = "''{\"level\":{\"levelStr\":\"INFO\"},\"data\":{\"length\":9007199254740994}}''"
  let ?m' = "JObj [(''type'', JStr ''::log-message''), (''event'', JStr ?big)] []"
  let ?config = "\<lparr> appenders = Some [JObj [(''type'', JStr ''file'')] []],
                   actualAppenders = Some [recorder 0] \<rparr>"
  have h1: "get_prop ?m ''type'' = Inr (JStr ''::log-message'')" by simp
  have h2: "get_prop ?m ''event'' = Inr (JStr ''not json'')" by simp
  have h1': "get_prop ?m' ''type'' = Inr (JStr ''::log-message'')" by simp
  have h2': "get_prop ?m' ''event'' = Inr (JStr ?big)" by simp
  have p: "parse ''not json'' = None" by (simp add: run_parse)
  have d: "deserializeLoggingEvent node (JStr ''not json'') = Some (fallback node (JStr ''not json''))"
    by (simp add: deserializeLoggingEvent_def deserialize_try_def JSON_parse_value_def node_simps p)
  have "on_message node ?config \<lparr> process_pid = 4242, worker_id = 3 \<rparr> ?m' [] = None"
    using provenance [OF h1' h2', of node ?config "\<lparr> process_pid = 4242, worker_id = 3 \<rparr>" "[]"]
    by (simp add: deserialize_never_returns)
  then show ?thesis
    using provenance [OF h1 h2, of node ?config
        "\<lparr> process_pid = 4242, worker_id = 3 \<rparr>" "[]" "JObj [(''categoryName'', JStr ''app'')] []" "[]"]
    by (simp add: d fallback_def node_simps masterAppender_def invoke_def recorder_def)
qed

section \<open>Forwarding\<close>

text \<open>
  C9, as stated, fails for the reason C5 does: in a worker, an event that
  \<^verbatim>\<open>serializeLoggingEvent\<close> throws on makes the forwarder throw, and no message is sent:
  the channel, empty before the call, is empty after it.
\<close>

theorem forwarder_throws_on_bigint:
  "isWorker node_worker \<and> \<not> isMaster node_worker \<and>
   appender (createAppender node_worker \<lparr> appenders = None, actualAppenders = None \<rparr>)
     (JObj [(''categoryName'', JStr ''app''), (''data'', JArr [JBigInt 1])] []) ((), [])
   = Some (Inl TypeError, [])"
  by (simp add: createAppender_def workerAppender_def node_worker_simps
      serializeLoggingEvent_def serialize_loop.simps increment_def less_than_def serialize_item_def
      JSON_stringify_def)

text \<open>
  C9, amended. The forwarder is the function \<^verbatim>\<open>createAppender\<close> returns outside the
  master. Called in a worker, it sends exactly one message when
  \<^verbatim>\<open>serializeLoggingEvent\<close> returns a text, with \<^verbatim>\<open>type\<close> the sentinel
  \<^verbatim>\<open>::log-message\<close> and \<^verbatim>\<open>event\<close> that text; when \<^verbatim>\<open>serializeLoggingEvent\<close> throws it
  throws the same and leaves the channel as it was; when \<^verbatim>\<open>serializeLoggingEvent\<close> never
  returns, neither does it. Called in a process that is no worker, it sends nothing and
  does not throw. In the master \<^verbatim>\<open>createAppender\<close> returns \<^verbatim>\<open>masterAppender\<close> instead,
  which sends nothing over the channel and throws when dispatching throws.
\<close>

theorem forwarder_sends:
  "(\<not> isMaster E \<and> isWorker E \<and> serializeLoggingEvent E ev = Some (Inr (t, ev')) \<longrightarrow>
      (\<exists>text. t = Some text \<and>
         appender (createAppender E config) ev (w, sent) =
           Some (Inr w, sent @ [JObj [(''type'', JStr ''::log-message''), (''event'', JStr text)] []])))
   \<and> (\<not> isMaster E \<and> isWorker E \<and> serializeLoggingEvent E ev = Some (Inl e) \<longrightarrow>
        appender (createAppender E config) ev (w, sent) = Some (Inl e, sent))
   \<and> (\<not> isMaster E \<and> isWorker E \<and> serializeLoggingEvent E ev = None \<longrightarrow>
        appender (createAppender E config) ev (w, sent) = None)
   \<and> (\<not> isWorker E \<longrightarrow> workerAppender E ev sent = Some (None, sent))
   \<and> (\<not> isMaster E \<and> \<not> isWorker E \<longrightarrow>
        appender (createAppender E config) ev (w, sent) = Some (Inr w, sent))
   \<and> (isMaster E \<longrightarrow>
        appender (createAppender E config) ev (w, sent) = Some (masterAppender config ev w, sent))"
  using serialize_text[of E ev t ev']
  by (auto simp: createAppender_def workerAppender_def)

theorem forwarder_sends_witness:
  "appender (createAppender node_worker \<lparr> appenders = None, actualAppenders = None \<rparr>)
     (JObj [(''categoryName'', JStr ''app''), (''data'', JArr [JStr ''up''])] []) ((), [])
   = Some (Inr (), [JObj [(''type'', JStr ''::log-message''),
                          (''event'', JStr ''{\"categoryName\":\"app\",\"data\":[\"up\"]}'')] []])
   \<and> appender (createAppender node_worker \<lparr> appenders = None, actualAppenders = None \<rparr>)
     (JObj [(''data'', JArr [JBigInt 7])] []) ((), [JStr ''earlier''])
   = Some (Inl TypeError, [JStr ''earlier''])
   \<and> appender (createAppender node_worker \<lparr> appenders = None, actualAppenders = None \<rparr>)
     (JObj [(''data'', JObj [(''length'', JNum 9007199254740994)] [])] []) ((), [])
   = None
   \<and> workerAppender node
       (JObj [(''categoryName'', JStr ''app''), (''data'', JArr [JStr ''up''])] []) []
   = Some (None, [])
   \<and> appender (createAppender node
         \<lparr> appenders = Some [JObj [(''type'', JStr ''file'')] []], actualAppenders = Some [recorder 0] \<rparr>)
       (JObj [(''categoryName'', JStr ''app''), (''data'', JArr [JStr ''up''])] []) ([], [])
   = Some (Inr [(0, JObj [(''categoryName'', JStr ''app''), (''data'', JArr [JStr ''up''])] [])], [])"
proof -
  let ?ev = "JObj [(''categoryName'', JStr ''app''), (''data'', JArr [JStr ''up''])] []"
  let ?bad = "JObj [(''data'', JArr [JBigInt 7])] []"
  let ?long = "JObj [(''data'', JObj [(''length'', JNum 9007199254740994)] [])] []"
  let ?none = "\<lparr> appenders = None, actualAppenders = None \<rparr> :: unit config"
  let ?config = "\<lparr> appenders = Some [JObj [(''type'', JStr ''file'')] []],
                   actualAppenders = Some [recorder 0] \<rparr>"
  have s: "serializeLoggingEvent node_worker ?ev
           = Some (Inr (Some ''{\"categoryName\":\"app\",\"data\":[\"up\"]}'', ?ev))"
    by (simp add: serializeLoggingEvent_def serialize_loop.simps increment_def less_than_def
        serialize_item_def JSON_stringify_def quote_def quote_char_def)
  have s': "serializeLoggingEvent node_worker ?bad = Some (Inl TypeError)"
    by (simp add: serializeLoggingEvent_def serialize_loop.simps increment_def less_than_def
        serialize_item_def JSON_stringify_def)
  have s'': "serializeLoggingEvent node_worker ?long = None"
    by (rule serialize_never_returns[of _ 9007199254740994]) simp_all
  have a: "appender (createAppender node_worker ?none) ?ev ((), [])
        = Some (Inr (), [JObj [(''type'', JStr ''::log-message''),
                          (''event'', JStr ''{\"categoryName\":\"app\",\"data\":[\"up\"]}'')] []])"
    using forwarder_sends [where E = node_worker and ev = ?ev
        and t = "Some ''{\"categoryName\":\"app\",\"data\":[\"up\"]}''" and ev' = ?ev
        and config = ?none and w = "()" and sent = "[]"] s
    by (simp add: node_worker_simps)
  have b: "appender (createAppender node_worker ?none) ?bad ((), [JStr ''earlier''])
        = Some (Inl TypeError, [JStr ''earlier''])"
    using forwarder_sends [where E = node_worker and ev = ?bad and e = TypeError
        and config = ?none and w = "()" and sent = "[JStr ''earlier'']"] s'
    by (simp add: node_worker_simps)
  have c: "appender (createAppender node_worker ?none) ?long ((), []) = None"
    using forwarder_sends [where E = node_worker and ev = ?long
        and config = ?none and w = "()" and sent = "[]"] s''
    by (simp add: node_worker_simps)
  have d: "workerAppender node ?ev [] = Some (None, [])"
    using forwarder_sends [where E = node and ev = ?ev
        and config = ?none and w = "()" and sent = "[]"]
    by (simp add: node_simps)
  have e: "appender (createAppender node ?config) ?ev ([], [])
        = Some (Inr [(0, ?ev)], [])"
    using forwarder_sends [where E = node and ev = ?ev
        and config = ?config and w = "[]" and sent = "[]"]
    by (simp add: node_simps masterAppender_def invoke_def recorder_def)
  show ?thesis using a b c d e by simp
qed

end
